theory Spec2Isabelle
  imports Complex_Main "HOL-Library.Sublist" "HOL-Library.Multiset"
begin

section \<open>JavaScript strings\<close>

text \<open>
  Strings are byte lists. Only ASCII characters take part in the tests the pipeline makes
  (\<open>\d\<close>, \<open>;\<close>, the newline, the fixed names \<open>th_data_\<close>, \<open>csv\<close>, \<open>tsv\<close>,
  \<open>kaannokset\<close>, \<open>translation\<close>); \<open>toLowerCase\<close> is modelled on the ASCII letters and
  leaves every other byte as it is.
\<close>

definition is_digit :: "char \<Rightarrow> bool" where
  "is_digit c \<longleftrightarrow> 48 \<le> (of_char c :: nat) \<and> (of_char c :: nat) \<le> 57"

definition digit_val :: "char \<Rightarrow> int" where
  "digit_val c = int (of_char c) - 48"

text \<open>\<open>parseInt\<close> on a string of decimal digits.\<close>

definition decimal :: "string \<Rightarrow> int" where
  "decimal ds = foldl (\<lambda>acc c. 10 * acc + digit_val c) 0 ds"

definition toLowerChar :: "char \<Rightarrow> char" where
  "toLowerChar c =
     (case map_of (zip ''ABCDEFGHIJKLMNOPQRSTUVWXYZ'' ''abcdefghijklmnopqrstuvwxyz'') c of
        Some l \<Rightarrow> l
      | None \<Rightarrow> c)"

definition toLowerCase :: "string \<Rightarrow> string" where
  "toLowerCase s = map toLowerChar s"

definition startsWith :: "string \<Rightarrow> string \<Rightarrow> bool" where
  "startsWith s p \<longleftrightarrow> prefix p s"

definition endsWith :: "string \<Rightarrow> string \<Rightarrow> bool" where
  "endsWith s p \<longleftrightarrow> suffix p s"

text \<open>\<open>s.includes(sub)\<close>: the substring is looked for at every start position.\<close>

fun str_includes :: "string \<Rightarrow> string \<Rightarrow> bool" where
  "str_includes [] sub = (sub = [])"
| "str_includes (c # cs) sub = (prefix sub (c # cs) \<or> str_includes cs sub)"

section \<open>Resource catalog client (ckan-client.js)\<close>

record resource =
  res_id :: string
  res_name :: string
  res_url :: string
  res_format :: string
  res_last_modified :: "string option"

subsection \<open>extractYearFromFilename\<close>

text \<open>
  \<open>filename.match(/(\d{4})/)\<close>: the regular expression is tried at start position 0, 1, 2, ...
  and matches at the first position that is followed by four digit characters; \<open>parseInt\<close>
  of the four matched characters is returned, \<open>null\<close> (here \<open>None\<close>) when no position
  matches.
\<close>

definition digits4 :: "string \<Rightarrow> bool" where
  "digits4 s \<longleftrightarrow> 4 \<le> length s \<and> list_all is_digit (take 4 s)"

fun extractYearFromFilename :: "string \<Rightarrow> int option" where
  "extractYearFromFilename [] = None"
| "extractYearFromFilename (c # cs) =
     (if digits4 (c # cs) then Some (decimal (take 4 (c # cs)))
      else extractYearFromFilename cs)"

text \<open>
  The reading of the specification's words, for comparison: the maximal runs of digits of the
  file name, and the first of them that has exactly four digits.
\<close>

function digit_runs :: "string \<Rightarrow> string list" where
  "digit_runs [] = []"
| "digit_runs (c # cs) =
     (if is_digit c then (c # takeWhile is_digit cs) # digit_runs (dropWhile is_digit cs)
      else digit_runs cs)"
  by pat_completeness auto
termination
  by (relation "measure length") (auto simp: length_dropWhile_le le_imp_less_Suc)

definition spec_extractYear :: "string \<Rightarrow> int option" where
  "spec_extractYear f =
     (case filter (\<lambda>r. length r = 4) (digit_runs f) of
        [] \<Rightarrow> None
      | r # _ \<Rightarrow> Some (decimal r))"

text \<open>Four digit characters start at index \<open>i\<close> of the file name.\<close>

definition four_digits_at :: "string \<Rightarrow> nat \<Rightarrow> bool" where
  "four_digits_at f i \<longleftrightarrow> i + 4 \<le> length f \<and> (\<forall>j<4. is_digit (f ! (i + j)))"

subsection \<open>filterProcurementResources\<close>

definition isDataFile :: "resource \<Rightarrow> bool" where
  "isDataFile r =
     (let name = toLowerCase (res_name r); format = toLowerCase (res_format r)
      in startsWith name ''th_data_'' \<and>
         (format = ''csv'' \<or> format = ''tsv'' \<or> endsWith name ''.csv'' \<or> endsWith name ''.tsv''))"

definition isNotTranslation :: "resource \<Rightarrow> bool" where
  "isNotTranslation r =
     (let name = toLowerCase (res_name r)
      in \<not> str_includes name ''kaannokset'' \<and> \<not> str_includes name ''translation'')"

text \<open>
  The comparator \<open>(a, b) => yearB - yearA\<close>; a \<open>null\<close> year is the number 0 under the
  subtraction.
\<close>

definition yearNum :: "resource \<Rightarrow> int" where
  "yearNum r = (case extractYearFromFilename (res_name r) of None \<Rightarrow> 0 | Some y \<Rightarrow> y)"

definition compareYear :: "resource \<Rightarrow> resource \<Rightarrow> int" where
  "compareYear a b = yearNum b - yearNum a"

text \<open>
  \<open>Array.prototype.sort\<close> is stable, and with a consistent comparator its result is the one
  stable ordering; it is computed here by insertion from the right, an element going in front
  of the first element it does not have to follow.
\<close>

fun insertSorted :: "('a \<Rightarrow> 'a \<Rightarrow> int) \<Rightarrow> 'a \<Rightarrow> 'a list \<Rightarrow> 'a list" where
  "insertSorted cmp x [] = [x]"
| "insertSorted cmp x (y # ys) =
     (if cmp x y \<le> 0 then x # y # ys else y # insertSorted cmp x ys)"

definition arraySort :: "('a \<Rightarrow> 'a \<Rightarrow> int) \<Rightarrow> 'a list \<Rightarrow> 'a list" where
  "arraySort cmp xs = foldr (insertSorted cmp) xs []"

definition filterProcurementResources :: "resource list \<Rightarrow> resource list" where
  "filterProcurementResources resources =
     arraySort compareYear (filter (\<lambda>r. isDataFile r \<and> isNotTranslation r) resources)"

section \<open>Format detector (csv-importer.js, detectDelimiter)\<close>

text \<open>
  The argument \<open>lead\<close> is what the file gives to the read of its first 1024 bytes: \<open>None\<close>
  when opening or reading throws, the file's bytes otherwise (the read takes at most 1024 of
  them). The zero bytes that fill the rest of the buffer are neither \<open>;\<close> nor a newline.
\<close>

definition firstLine :: "string \<Rightarrow> string" where
  "firstLine bytes = takeWhile (\<lambda>c. c \<noteq> CHR 0x0A) (take 1024 bytes)"

definition formatDefault :: "string \<Rightarrow> char" where
  "formatDefault format = (if toLowerCase format = ''tsv'' then CHR 0x09 else CHR '','')"

definition detectDelimiter :: "string option \<Rightarrow> string \<Rightarrow> char" where
  "detectDelimiter lead format =
     (case lead of
        None \<Rightarrow> formatDefault format
      | Some bytes \<Rightarrow>
          if CHR '';'' \<in> set (firstLine bytes) then CHR '';''
          else if toLowerCase format = ''tsv'' then CHR 0x09
          else CHR '','')"

section \<open>Numbers read from text\<close>

text \<open>
  The result of \<open>parseFloat\<close>: \<open>NaN\<close>, an infinity (\<open>True\<close> for the negative one), or the
  number written by the longest prefix that is a decimal literal. \<open>Num q\<close> carries the exact
  value of that literal; the rounding to a binary64 double is not part of the model.
\<close>

datatype jsnum = NaN | Infinity bool | Num rat

definition is_space :: "char \<Rightarrow> bool" where
  "is_space c \<longleftrightarrow> c \<in> set [CHR '' '', CHR 0x09, CHR 0x0A, CHR 0x0B, CHR 0x0C, CHR 0x0D]"

definition parseSign :: "string \<Rightarrow> bool \<times> string" where
  "parseSign s =
     (case s of
        [] \<Rightarrow> (False, [])
      | c # cs \<Rightarrow> if c = CHR ''-'' then (True, cs) else if c = CHR ''+'' then (False, cs)
                 else (False, s))"

definition parseExponent :: "string \<Rightarrow> int" where
  "parseExponent s =
     (case s of
        [] \<Rightarrow> 0
      | c # cs \<Rightarrow>
          if c = CHR ''e'' \<or> c = CHR ''E'' then
            (let (neg, r) = parseSign cs; ds = takeWhile is_digit r
             in if ds = [] then 0 else if neg then - decimal ds else decimal ds)
          else 0)"

definition pow10 :: "int \<Rightarrow> rat" where
  "pow10 e = (if 0 \<le> e then 10 ^ nat e else 1 / 10 ^ nat (- e))"

definition parseFloat :: "string \<Rightarrow> jsnum" where
  "parseFloat s =
     (let (neg, u) = parseSign (dropWhile is_space s)
      in if prefix ''Infinity'' u then Infinity neg
         else
           let ip = takeWhile is_digit u;
               r1 = dropWhile is_digit u;
               dot = (r1 \<noteq> [] \<and> hd r1 = CHR ''.'');
               fp = (if dot then takeWhile is_digit (tl r1) else []);
               r2 = (if dot then dropWhile is_digit (tl r1) else r1)
           in if ip = [] \<and> fp = [] then NaN
              else Num ((if neg then - 1 else 1) * of_int (decimal (ip @ fp))
                        * pow10 (parseExponent r2 - int (length fp))))"

section \<open>Storage (database.js)\<close>

record invoice =
  lasku_id :: string
  hankintayksikko :: string
  hankintayksikko_tunnus :: "string option"
  ylaorganisaatio :: "string option"
  ylaorganisaatio_tunnus :: "string option"
  toimittaja_y_tunnus :: "string option"
  toimittaja_nimi :: "string option"
  toimittaja_kunta :: "string option"
  tili :: "string option"
  hankintakategoria :: string
  tuote_palveluryhma :: "string option"
  tositepvm :: string
  tiliointisumma :: jsnum
  sektori :: "string option"
  data_year :: "int option"

record ledger_entry =
  resource_id :: string
  resource_name :: string
  resource_url :: string
  file_format :: string
  ledger_year :: "int option"
  last_modified :: "string option"
  records_imported :: nat
  status :: string

text \<open>
  The two tables the pipeline writes. A row is the value of its \<open>id\<close> column, given by the
  table's \<open>AUTOINCREMENT\<close> counter, and the columns an insert names; the rows are kept in
  the order of their \<open>id\<close>. The columns that default to \<open>CURRENT_TIMESTAMP\<close> depend on the
  clock and are left out, and so is the \<open>system_config\<close> table, which the pipeline does not
  touch.
\<close>

record database =
  procurement_invoices :: "(nat \<times> invoice) list"
  invoices_seq :: nat
  dataset_metadata :: "(nat \<times> ledger_entry) list"
  metadata_seq :: nat

datatype error =
    SqliteConstraint
  | CatalogError string
  | DownloadError string
  | FileMissing

text \<open>\<open>CREATE TABLE IF NOT EXISTS\<close> and \<open>CREATE INDEX IF NOT EXISTS\<close> keep what is stored.\<close>

definition initializeDatabase :: "database \<Rightarrow> database" where
  "initializeDatabase db = db"

definition clearInvoiceData :: "database \<Rightarrow> database" where
  "clearInvoiceData db = db\<lparr>procurement_invoices := [], dataset_metadata := []\<rparr>"

text \<open>
  The columns \<open>tiliointisumma\<close> and \<open>data_year\<close> are \<open>NOT NULL\<close> and have no default. A
  \<open>null\<close> year is bound as NULL, and so is a NaN amount (SQLite stores no NaN); the four
  required text columns are always bound to strings.
\<close>

definition violatesNotNull :: "invoice \<Rightarrow> bool" where
  "violatesNotNull iv \<longleftrightarrow> tiliointisumma iv = NaN \<or> data_year iv = None"

text \<open>
  One \<open>INSERT OR REPLACE INTO procurement_invoices\<close>: a \<open>NOT NULL\<close> violation throws; a row
  with the same \<open>lasku_id\<close> (the \<open>UNIQUE\<close> column) is deleted, and the new row gets the next
  \<open>id\<close>.
\<close>

definition insertRun :: "invoice \<Rightarrow> database \<Rightarrow> error + database" where
  "insertRun iv db =
     (if violatesNotNull iv then Inl SqliteConstraint
      else Inr (db\<lparr>procurement_invoices :=
                      filter (\<lambda>row. lasku_id (snd row) \<noteq> lasku_id iv) (procurement_invoices db)
                      @ [(Suc (invoices_seq db), iv)],
                    invoices_seq := Suc (invoices_seq db)\<rparr>))"

fun insertMany :: "invoice list \<Rightarrow> database \<Rightarrow> error + database" where
  "insertMany [] db = Inr db"
| "insertMany (iv # ivs) db =
     (case insertRun iv db of
        Inl e \<Rightarrow> Inl e
      | Inr db' \<Rightarrow> insertMany ivs db')"

text \<open>
  \<open>insertBatch\<close> runs \<open>insertMany\<close> as one transaction: when an insert throws, the
  transaction is rolled back, the database is as before the batch, and the exception goes to
  the caller.
\<close>

definition insertBatch :: "invoice list \<Rightarrow> database \<Rightarrow> error + database" where
  "insertBatch records db = insertMany records db"

text \<open>
  \<open>INSERT OR REPLACE INTO dataset_metadata\<close>, keyed by the \<open>UNIQUE\<close> column
  \<open>resource_id\<close>, always with the status \<open>completed\<close>.
\<close>

definition updateMetadata :: "resource \<Rightarrow> nat \<Rightarrow> database \<Rightarrow> database" where
  "updateMetadata r recordCount db =
     db\<lparr>dataset_metadata :=
          filter (\<lambda>row. resource_id (snd row) \<noteq> res_id r) (dataset_metadata db)
          @ [(Suc (metadata_seq db),
              \<lparr>resource_id = res_id r, resource_name = res_name r, resource_url = res_url r,
               file_format = res_format r,
               ledger_year = extractYearFromFilename (res_name r),
               last_modified = res_last_modified r,
               records_imported = recordCount, status = ''completed''\<rparr>)],
        metadata_seq := Suc (metadata_seq db)\<rparr>"

section \<open>Streaming importer (csv-importer.js)\<close>

text \<open>
  A parsed record maps the column names of the header to the (trimmed) text of the row's
  cells; a column the row does not have is \<open>undefined\<close>, here \<open>None\<close>.
\<close>

type_synonym csv_record = "string \<rightharpoonup> string"

text \<open>\<open>a || b\<close> on cells: \<open>undefined\<close> and the empty string are falsy.\<close>

definition truthy :: "string option \<Rightarrow> bool" where
  "truthy v \<longleftrightarrow> (case v of None \<Rightarrow> False | Some s \<Rightarrow> s \<noteq> [])"

definition js_or :: "string option \<Rightarrow> string option \<Rightarrow> string option" where
  "js_or a b = (if truthy a then a else b)"

text \<open>\<open>a || b || d\<close> with a string literal \<open>d\<close>, and \<open>a || b || null\<close>.\<close>

definition orDefault :: "string option \<Rightarrow> string option \<Rightarrow> string \<Rightarrow> string" where
  "orDefault a b d = (case js_or a b of None \<Rightarrow> d | Some s \<Rightarrow> if s = [] then d else s)"

definition orNull :: "string option \<Rightarrow> string option \<Rightarrow> string option" where
  "orNull a b = (if truthy (js_or a b) then js_or a b else None)"

definition toInvoice :: "int option \<Rightarrow> csv_record \<Rightarrow> invoice" where
  "toInvoice year record =
     \<lparr>lasku_id = orDefault (record ''lasku_id'') (record ''invoice_id'') '''',
      hankintayksikko = orDefault (record ''hankintayksikko'') (record ''procurement_unit'') '''',
      hankintayksikko_tunnus =
        orNull (record ''hankintayksikko_tunnus'') (record ''procurement_unit_id''),
      ylaorganisaatio = orNull (record ''ylaorganisaatio'') (record ''parent_organization''),
      ylaorganisaatio_tunnus =
        orNull (record ''ylaorganisaatio_tunnus'') (record ''parent_organization_id''),
      toimittaja_y_tunnus =
        orNull (record ''toimittaja_y_tunnus'') (record ''supplier_business_id''),
      toimittaja_nimi = orNull (record ''toimittaja_nimi'') (record ''supplier_name''),
      toimittaja_kunta = orNull (record ''toimittaja_kunta'') (record ''supplier_city''),
      tili = orNull (record ''tili'') (record ''account''),
      hankintakategoria =
        orDefault (record ''hankintakategoria'') (record ''procurement_category'') '''',
      tuote_palveluryhma =
        orNull (record ''tuote_palveluryhma'') (record ''product_service_group''),
      tositepvm = orDefault (record ''tositepvm'') (record ''invoice_entry_date'') '''',
      tiliointisumma =
        parseFloat (orDefault (record ''tiliointisumma'') (record ''posting_sum'') ''0''),
      sektori = orNull (record ''sektori'') (record ''sector''),
      data_year = year\<rparr>"

text \<open>The validation of the required fields: \<open>!invoice.lasku_id || ...\<close>.\<close>

definition missingRequired :: "invoice \<Rightarrow> bool" where
  "missingRequired iv \<longleftrightarrow>
     lasku_id iv = [] \<or> hankintayksikko iv = [] \<or> hankintakategoria iv = [] \<or>
     tositepvm iv = []"

text \<open>
  The variables of one \<open>importCSVFile\<close> call and the database it writes to. \<open>flushed\<close> is
  not a variable of the code: it lists the batches handed to \<open>insertBatch\<close>, in order, each
  of them one transaction.
\<close>

record importer =
  records :: "invoice list"
  recordCount :: nat
  errorCount :: nat
  flushed :: "invoice list list"
  store :: database

text \<open>
  The handler of the parser's \<open>data\<close> event. An exception of \<open>insertBatch\<close> is caught by
  the handler's \<open>try\<close>: the batch has left the buffer by then (\<open>splice\<close>), and the error
  counter goes up by one.
\<close>

definition onData :: "int option \<Rightarrow> importer \<Rightarrow> csv_record \<Rightarrow> importer" where
  "onData year st record =
     (let iv = toInvoice year record
      in if missingRequired iv then st\<lparr>errorCount := errorCount st + 1\<rparr>
         else
           let st1 = st\<lparr>records := records st @ [iv], recordCount := recordCount st + 1\<rparr>
           in if 1000 \<le> length (records st1) then
                (let batch = take 1000 (records st1);
                     st2 = st1\<lparr>records := drop 1000 (records st1),
                               flushed := flushed st1 @ [batch]\<rparr>
                 in case insertBatch batch (store st2) of
                      Inl e \<Rightarrow> st2\<lparr>errorCount := errorCount st2 + 1\<rparr>
                    | Inr db \<Rightarrow> st2\<lparr>store := db\<rparr>)
              else st1)"

datatype import_outcome =
    Resolved nat nat
  | Rejected string
  | Uncaught error

text \<open>
  The handler of the \<open>end\<close> event has no \<open>try\<close>: an exception of the last \<open>insertBatch\<close>
  leaves the handler, the ledger is not written and the promise is never settled.
\<close>

definition onEnd :: "resource \<Rightarrow> importer \<Rightarrow> import_outcome \<times> importer" where
  "onEnd r st =
     (if records st \<noteq> [] then
        (let st1 = st\<lparr>flushed := flushed st @ [records st]\<rparr>
         in case insertBatch (records st) (store st) of
              Inl e \<Rightarrow> (Uncaught e, st1)
            | Inr db \<Rightarrow>
                (Resolved (recordCount st) (errorCount st),
                 st1\<lparr>store := updateMetadata r (recordCount st) db\<rparr>))
      else
        (Resolved (recordCount st) (errorCount st),
         st\<lparr>store := updateMetadata r (recordCount st) (store st)\<rparr>))"

text \<open>
  What the parser makes of a file: the records of its \<open>data\<close> events, and then either the
  \<open>end\<close> event or an \<open>error\<close> event with its message. The parser is given the delimiter,
  and a file also has the result of reading its first 1024 bytes.
\<close>

datatype stream_end = End | ParseError string

record csv_file =
  head_bytes :: "string option"
  parsed :: "char \<Rightarrow> csv_record list \<times> stream_end"

definition newImporter :: "database \<Rightarrow> importer" where
  "newImporter db = \<lparr>records = [], recordCount = 0, errorCount = 0, flushed = [], store = db\<rparr>"

definition importCSVFile :: "csv_file \<Rightarrow> resource \<Rightarrow> database \<Rightarrow> import_outcome \<times> importer" where
  "importCSVFile file r db =
     (let year = extractYearFromFilename (res_name r);
          format = toLowerCase (res_format r);
          delimiter = detectDelimiter (head_bytes file) format;
          (recs, ending) = parsed file delimiter;
          st = foldl (onData year) (newImporter db) recs
      in case ending of
           End \<Rightarrow> onEnd r st
         | ParseError msg \<Rightarrow> (Rejected msg, st))"

section \<open>Downloader and orchestration (ckan-client.js, update-data.js)\<close>

text \<open>
  What a run meets outside the program: the answer of the catalog (the resources of the
  dataset, or the error \<open>fetchDatasetMetadata\<close> throws), the answer to fetching a URL (the
  file that is then written to disk, or the error \<open>downloadFile\<close> throws), and the files of
  the download directory by file name. A file's path is its name in that one directory; the
  size a download result also carries is only printed and is left out.
\<close>

record world =
  catalog :: "error + resource list"
  remote :: "string \<Rightarrow> error + csv_file"
  disk :: "string \<rightharpoonup> csv_file"

record download =
  filePath :: string
  dl_resource :: resource
  skipped :: bool

definition downloadFile :: "resource \<Rightarrow> world \<Rightarrow> error + (download \<times> world)" where
  "downloadFile r w =
     (case remote w (res_url r) of
        Inl e \<Rightarrow> Inl e
      | Inr f \<Rightarrow>
          Inr (\<lparr>filePath = res_name r, dl_resource = r, skipped = False\<rparr>,
               w\<lparr>disk := (disk w)(res_name r \<mapsto> f)\<rparr>))"

text \<open>
  The years of \<open>--years=\<close> are results of \<open>parseInt\<close>: an integer, or NaN (here \<open>None\<close>),
  which \<open>includes\<close> never finds equal to an extracted year or to \<open>null\<close>.
\<close>

definition selectYears :: "int option list option \<Rightarrow> resource list \<Rightarrow> resource list" where
  "selectYears yearsToDownload resources =
     (case yearsToDownload of
        None \<Rightarrow> resources
      | Some ys \<Rightarrow>
          if ys = [] then resources
          else filter (\<lambda>r. case extractYearFromFilename (res_name r) of
                              None \<Rightarrow> False
                            | Some y \<Rightarrow> Some y \<in> set ys) resources)"

fun downloadEach :: "bool \<Rightarrow> resource list \<Rightarrow> world \<Rightarrow> error + (download list \<times> world)" where
  "downloadEach forceRedownload [] w = Inr ([], w)"
| "downloadEach forceRedownload (r # rs) w =
     (if disk w (res_name r) \<noteq> None \<and> \<not> forceRedownload then
        (case downloadEach forceRedownload rs w of
           Inl e \<Rightarrow> Inl e
         | Inr (ds, w') \<Rightarrow>
             Inr (\<lparr>filePath = res_name r, dl_resource = r, skipped = True\<rparr> # ds, w'))
      else
        (case downloadFile r w of
           Inl e \<Rightarrow> Inl e
         | Inr (d, w1) \<Rightarrow>
             (case downloadEach forceRedownload rs w1 of
                Inl e \<Rightarrow> Inl e
              | Inr (ds, w') \<Rightarrow> Inr (d\<lparr>skipped := False\<rparr> # ds, w'))))"

definition downloadAllProcurementFiles ::
  "int option list option \<Rightarrow> bool \<Rightarrow> world \<Rightarrow> error + (download list \<times> world)" where
  "downloadAllProcurementFiles yearsToDownload forceRedownload w =
     (case catalog w of
        Inl e \<Rightarrow> Inl e
      | Inr resources \<Rightarrow>
          downloadEach forceRedownload
            (selectYears yearsToDownload (filterProcurementResources resources)) w)"

datatype import_result =
    ImportSuccess string nat nat
  | ImportFailure string string

text \<open>
  \<open>importAllFiles\<close> goes through the download results in order. A rejected promise is
  caught and recorded; an exception that leaves an event handler (the \<open>end\<close> handler, or a
  read stream with no file behind it) is not within reach of the \<open>catch\<close> and ends the
  process.
\<close>

fun importAllFiles ::
  "(string \<rightharpoonup> csv_file) \<Rightarrow> download list \<Rightarrow> database \<Rightarrow> (error + import_result list) \<times> database"
  where
  "importAllFiles files [] db = (Inr [], db)"
| "importAllFiles files (d # ds) db =
     (case files (filePath d) of
        None \<Rightarrow> (Inl FileMissing, db)
      | Some file \<Rightarrow>
          (case importCSVFile file (dl_resource d) db of
             (Resolved n k, st) \<Rightarrow>
               (case importAllFiles files ds (store st) of
                  (Inl e, db') \<Rightarrow> (Inl e, db')
                | (Inr results, db') \<Rightarrow>
                    (Inr (ImportSuccess (res_name (dl_resource d)) n k # results), db'))
           | (Rejected msg, st) \<Rightarrow>
               (case importAllFiles files ds (store st) of
                  (Inl e, db') \<Rightarrow> (Inl e, db')
                | (Inr results, db') \<Rightarrow>
                    (Inr (ImportFailure (res_name (dl_resource d)) msg # results), db'))
           | (Uncaught e, st) \<Rightarrow> (Inl e, store st)))"

record options =
  years :: "int option list option"
  forceRedownload :: bool
  clearExisting :: bool

datatype exit_status =
    Completed "import_result list"
  | NoFiles
  | Fatal error
  | Crashed error

definition updateProcurementData :: "options \<Rightarrow> world \<Rightarrow> database \<Rightarrow> exit_status \<times> database" where
  "updateProcurementData opts w db =
     (let db0 = initializeDatabase db;
          db1 = (if clearExisting opts then clearInvoiceData db0 else db0)
      in case downloadAllProcurementFiles (years opts) (forceRedownload opts) w of
           Inl e \<Rightarrow> (Fatal e, db1)
         | Inr (downloadResults, w') \<Rightarrow>
             if downloadResults = [] then (NoFiles, db1)
             else
               (case importAllFiles (disk w') downloadResults db1 of
                  (Inl e, db2) \<Rightarrow> (Crashed e, db2)
                | (Inr results, db2) \<Rightarrow> (Completed results, db2)))"

section \<open>The selection rule in the specification's words\<close>


section \<open>The importer's loop in closed form\<close>

text \<open>
  The invoices of the records that pass the validation, in the order of the file, and the
  number of records that do not pass.
\<close>

definition acceptedInvoices :: "int option \<Rightarrow> csv_record list \<Rightarrow> invoice list" where
  "acceptedInvoices year recs = filter (\<lambda>iv. \<not> missingRequired iv) (map (toInvoice year) recs)"

definition rejectedCount :: "int option \<Rightarrow> csv_record list \<Rightarrow> nat" where
  "rejectedCount year recs = length (filter (\<lambda>r. missingRequired (toInvoice year r)) recs)"

text \<open>
  What the buffer does with the accepted invoices, as the \<open>data\<close> handler drives it: each
  invoice is pushed, and a buffer of 1000 or more gives up its first 1000 as a batch. The
  result is the batches in order and the buffer that is left.
\<close>

fun batching :: "'a list \<Rightarrow> 'a list \<Rightarrow> 'a list list \<times> 'a list" where
  "batching buf [] = ([], buf)"
| "batching buf (x # xs) =
     (if 1000 \<le> length (buf @ [x])
      then (take 1000 (buf @ [x]) # fst (batching (drop 1000 (buf @ [x])) xs),
            snd (batching (drop 1000 (buf @ [x])) xs))
      else batching (buf @ [x]) xs)"

text \<open>
  A batch throws when one of its invoices violates a \<open>NOT NULL\<close> constraint; the database
  after a batch whose exception is caught is the database before it.
\<close>

definition batchThrows :: "invoice list \<Rightarrow> bool" where
  "batchThrows b \<longleftrightarrow> list_ex violatesNotNull b"

definition commitBatch :: "database \<Rightarrow> invoice list \<Rightarrow> database" where
  "commitBatch db b = (case insertBatch b db of Inl e \<Rightarrow> db | Inr db' \<Rightarrow> db')"

section \<open>The invoice table as a list of invoices\<close>

text \<open>
  The rows of the invoice table without their \<open>id\<close>, the step of one insert-or-replace on
  such rows, and the invoices of a list that are the last of their \<open>lasku_id\<close> in it.
\<close>

definition invoiceRows :: "database \<Rightarrow> invoice list" where
  "invoiceRows db = map snd (procurement_invoices db)"

definition upsert :: "invoice list \<Rightarrow> invoice \<Rightarrow> invoice list" where
  "upsert rows iv = filter (\<lambda>row. lasku_id row \<noteq> lasku_id iv) rows @ [iv]"

fun keepLast :: "invoice list \<Rightarrow> invoice list" where
  "keepLast [] = []"
| "keepLast (iv # ivs) =
     (if lasku_id iv \<in> lasku_id ` set ivs then keepLast ivs else iv # keepLast ivs)"

section \<open>Rejection in the specification's words\<close>

text \<open>
  A canonical field is empty after alias resolution when both its primary column and its
  alias column are absent or empty; a record is to be rejected when one of the four required
  fields is.
\<close>

definition emptyAfterResolution :: "csv_record \<Rightarrow> string \<Rightarrow> string \<Rightarrow> bool" where
  "emptyAfterResolution rec primary alias \<longleftrightarrow>
     (rec primary = None \<or> rec primary = Some []) \<and> (rec alias = None \<or> rec alias = Some [])"

definition spec_rejected :: "csv_record \<Rightarrow> bool" where
  "spec_rejected rec \<longleftrightarrow>
     emptyAfterResolution rec ''lasku_id'' ''invoice_id'' \<or>
     emptyAfterResolution rec ''hankintayksikko'' ''procurement_unit'' \<or>
     emptyAfterResolution rec ''hankintakategoria'' ''procurement_category'' \<or>
     emptyAfterResolution rec ''tositepvm'' ''invoice_entry_date''"

section \<open>Sample data\<close>

text \<open>An empty database, a complete record, and a resource of the year 2024.\<close>

definition emptyDatabase :: database where
  "emptyDatabase =
     \<lparr>procurement_invoices = [], invoices_seq = 0, dataset_metadata = [], metadata_seq = 0\<rparr>"

definition sampleRecord :: csv_record where
  "sampleRecord =
     [''lasku_id'' \<mapsto> ''A1'', ''hankintayksikko'' \<mapsto> ''Espoo'',
      ''hankintakategoria'' \<mapsto> ''ICT'', ''tositepvm'' \<mapsto> ''2024-01-31'',
      ''tiliointisumma'' \<mapsto> ''12.50'']"

definition sampleResource :: resource where
  "sampleResource =
     \<lparr>res_id = ''r-2024'', res_name = ''th_data_2024.csv'', res_url = ''https://x/2024'',
      res_format = ''CSV'', res_last_modified = None\<rparr>"

text \<open>A readable file of \<open>n\<close> copies of the complete record.\<close>

definition sampleFile :: "nat \<Rightarrow> csv_file" where
  "sampleFile n = \<lparr>head_bytes = None, parsed = (\<lambda>delimiter. (replicate n sampleRecord, End))\<rparr>"

text \<open>
  A resource whose name has no year in it, a record with an amount that is no number, and a
  file of that one record.
\<close>

definition undatedResource :: resource where
  "undatedResource = sampleResource\<lparr>res_id := ''r-latest'', res_name := ''th_data_latest.csv''\<rparr>"

definition badAmountRecord :: csv_record where
  "badAmountRecord = sampleRecord(''tiliointisumma'' \<mapsto> ''abc'')"

definition badAmountFile :: csv_file where
  "badAmountFile = \<lparr>head_bytes = None, parsed = (\<lambda>delimiter. ([badAmountRecord], End))\<rparr>"

text \<open>
  A file that starts with the record whose amount is no number and goes on with 1000 copies
  of the complete record, with the way its stream ends left open.
\<close>

definition mixedFile :: "stream_end \<Rightarrow> csv_file" where
  "mixedFile ending =
     \<lparr>head_bytes = None,
      parsed = (\<lambda>delimiter. (badAmountRecord # replicate 1000 sampleRecord, ending))\<rparr>"

text \<open>
  A world in which the catalog lists the one resource of 2024, its file is already in the
  download directory with one complete record in it, and the network is down; and a database
  that holds one invoice of 2023 and the ledger row of the file it came from.
\<close>

definition sampleWorld :: world where
  "sampleWorld =
     \<lparr>catalog = Inr [sampleResource],
      remote = (\<lambda>url. Inl (DownloadError ''offline'')),
      disk = [''th_data_2024.csv'' \<mapsto> sampleFile 1]\<rparr>"

definition oldDatabase :: database where
  "oldDatabase =
     \<lparr>procurement_invoices = [(1, (toInvoice (Some 2023) sampleRecord)\<lparr>lasku_id := ''B7''\<rparr>)],
      invoices_seq = 1,
      dataset_metadata =
        [(1, \<lparr>resource_id = ''r-2023'', resource_name = ''th_data_2023.csv'',
              resource_url = ''https://x/2023'', file_format = ''CSV'', ledger_year = Some 2023,
              last_modified = None, records_imported = 1, status = ''completed''\<rparr>)],
      metadata_seq = 1\<rparr>"

section \<open>Properties of the catalog client\<close>

subsection \<open>The year of a file name\<close>

lemma digits4_iff: "digits4 (drop i f) \<longleftrightarrow> four_digits_at f i"
  by (auto simp: digits4_def four_digits_at_def list_all_length)

lemma extractYear_None_iff:
  "extractYearFromFilename f = None \<longleftrightarrow> (\<forall>i. \<not> digits4 (drop i f))"
proof (induction f)
  case Nil
  then show ?case by (simp add: digits4_def)
next
  case (Cons c cs)
  have "(\<forall>i. \<not> digits4 (drop i (c # cs))) \<longleftrightarrow> \<not> digits4 (c # cs) \<and> (\<forall>i. \<not> digits4 (drop i cs))"
  proof
    assume a: "\<forall>i. \<not> digits4 (drop i (c # cs))"
    have "\<not> digits4 (c # cs)" using a [rule_format, of 0] by simp
    moreover have "\<not> digits4 (drop i cs)" for i using a [rule_format, of "Suc i"] by simp
    ultimately show "\<not> digits4 (c # cs) \<and> (\<forall>i. \<not> digits4 (drop i cs))" by simp
  next
    assume a: "\<not> digits4 (c # cs) \<and> (\<forall>i. \<not> digits4 (drop i cs))"
    show "\<forall>i. \<not> digits4 (drop i (c # cs))"
    proof
      fix i show "\<not> digits4 (drop i (c # cs))" using a by (cases i) simp_all
    qed
  qed
  with Cons show ?case by simp
qed

lemma extractYear_first:
  "digits4 (drop i f) \<Longrightarrow> (\<forall>k<i. \<not> digits4 (drop k f)) \<Longrightarrow>
   extractYearFromFilename f = Some (decimal (take 4 (drop i f)))"
proof (induction f arbitrary: i)
  case Nil
  then show ?case by (simp add: digits4_def)
next
  case (Cons c cs)
  show ?case
  proof (cases i)
    case 0
    with Cons.prems show ?thesis by simp
  next
    case (Suc n)
    have n0: "\<not> digits4 (c # cs)" using Cons.prems(2) [rule_format, of 0] Suc by simp
    have "\<forall>k<n. \<not> digits4 (drop k cs)"
    proof (intro allI impI)
      fix k assume "k < n"
      then show "\<not> digits4 (drop k cs)" using Cons.prems(2) [rule_format, of "Suc k"] Suc by simp
    qed
    moreover have "digits4 (drop n cs)" using Cons.prems(1) Suc by simp
    ultimately have "extractYearFromFilename cs = Some (decimal (take 4 (drop n cs)))"
      by (rule Cons.IH [rotated])
    with n0 Suc show ?thesis by simp
  qed
qed

lemma not_digits4_nondigit: "\<not> is_digit c \<Longrightarrow> \<not> digits4 (c # cs)"
  by (simp add: digits4_def numeral_eq_Suc)

lemma not_digits4_short:
  assumes "length ds < 4" "rest = [] \<or> \<not> is_digit (hd rest)"
  shows "\<not> digits4 (ds @ rest)"
proof (cases rest)
  case Nil
  with assms show ?thesis by (simp add: digits4_def)
next
  case (Cons r rs)
  with assms have nd: "\<not> is_digit r" by simp
  have "r \<in> set (take 4 (ds @ rest))"
    using assms(1) Cons by (auto simp: take_Cons')
  then show ?thesis using nd by (auto simp: digits4_def list_all_iff)
qed

lemma skip_short_run:
  "length ds < 4 \<Longrightarrow> rest = [] \<or> \<not> is_digit (hd rest) \<Longrightarrow>
   extractYearFromFilename (ds @ rest) = extractYearFromFilename rest"
proof (induction ds)
  case Nil
  then show ?case by simp
next
  case (Cons d ds)
  have "\<not> digits4 ((d # ds) @ rest)" using Cons.prems by (rule not_digits4_short)
  then show ?case using Cons by simp
qed

lemma run_of_four:
  "length ds = 4 \<Longrightarrow> list_all is_digit ds \<Longrightarrow>
   extractYearFromFilename (ds @ rest) = Some (decimal ds)"
  by (cases ds) (simp_all add: digits4_def)

lemma rest_after_run: "dropWhile is_digit cs = [] \<or> \<not> is_digit (hd (dropWhile is_digit cs))"
  by (metis hd_dropWhile)

lemma extractYear_eq_spec:
  "(\<forall>r \<in> set (digit_runs f). length r \<le> 4) \<Longrightarrow> extractYearFromFilename f = spec_extractYear f"
proof (induction f rule: digit_runs.induct)
  case 1
  then show ?case by (simp add: spec_extractYear_def)
next
  case (2 c cs)
  show ?case
  proof (cases "is_digit c")
    case False
    with 2 have "extractYearFromFilename cs = spec_extractYear cs" by simp
    with False show ?thesis by (simp add: not_digits4_nondigit spec_extractYear_def)
  next
    case True
    define run where "run = c # takeWhile is_digit cs"
    define rest where "rest = dropWhile is_digit cs"
    have split: "c # cs = run @ rest" by (simp add: run_def rest_def)
    have runs: "digit_runs (c # cs) = run # digit_runs rest"
      using True by (simp add: run_def rest_def)
    have alld: "list_all is_digit run"
      using True by (auto simp: run_def list_all_iff dest: set_takeWhileD)
    have le: "length run \<le> 4" using "2.prems" runs by simp
    have ih: "extractYearFromFilename rest = spec_extractYear rest"
      using "2.IH"(1) [OF True] "2.prems" runs by (simp add: rest_def)
    show ?thesis
    proof (cases "length run = 4")
      case True
      then show ?thesis
        unfolding split using alld runs split
        by (simp add: run_of_four spec_extractYear_def)
    next
      case False
      with le have lt: "length run < 4" by simp
      have "extractYearFromFilename (run @ rest) = extractYearFromFilename rest"
        using lt rest_after_run [of cs] unfolding rest_def by (rule skip_short_run)
      then show ?thesis using ih False runs split
        by (simp add: spec_extractYear_def)
    qed
  qed
qed

text \<open>
  Claim C2, as amended. \<open>extractYearFromFilename\<close> returns the number written by the
  leftmost four consecutive digit characters of the file name, which may be the first four
  digits of a longer run of digits, and \<open>null\<close> exactly when the name has no four
  consecutive digits. For a name in which no run of digits is longer than four, this is the
  first run of exactly four digits.
\<close>

theorem extractYear_leftmost_four_digits:
  "(extractYearFromFilename f = None \<longleftrightarrow> (\<forall>i. \<not> four_digits_at f i)) \<and>
   (\<forall>i. four_digits_at f i \<and> (\<forall>k<i. \<not> four_digits_at f k) \<longrightarrow>
        extractYearFromFilename f = Some (decimal (take 4 (drop i f)))) \<and>
   ((\<forall>r \<in> set (digit_runs f). length r \<le> 4) \<longrightarrow>
        extractYearFromFilename f = spec_extractYear f)"
proof (intro conjI allI impI)
  show "extractYearFromFilename f = None \<longleftrightarrow> (\<forall>i. \<not> four_digits_at f i)"
    by (simp add: extractYear_None_iff digits4_iff)
next
  fix i assume "four_digits_at f i \<and> (\<forall>k<i. \<not> four_digits_at f k)"
  then show "extractYearFromFilename f = Some (decimal (take 4 (drop i f)))"
    by (intro extractYear_first) (simp_all add: digits4_iff)
next
  assume "\<forall>r \<in> set (digit_runs f). length r \<le> 4"
  then show "extractYearFromFilename f = spec_extractYear f"
    by (rule extractYear_eq_spec)
qed

text \<open>
  The theorem at \<open>th_data_2024.csv\<close>, whose only digits are the year, and at a name with no
  digits.
\<close>

theorem extractYear_leftmost_four_digits_witness:
  "four_digits_at ''th_data_2024.csv'' 8 \<and>
   \<not> (\<exists>k<8. four_digits_at ''th_data_2024.csv'' k) \<and>
   list_all (\<lambda>r. length r \<le> 4) (digit_runs ''th_data_2024.csv'') \<and>
   extractYearFromFilename ''th_data_2024.csv'' = Some 2024 \<and>
   spec_extractYear ''th_data_2024.csv'' = Some 2024 \<and>
   extractYearFromFilename ''readme.txt'' = None"
proof -
  let ?f = "''th_data_2024.csv''"
  have h1: "four_digits_at ?f 8"
    by (simp add: four_digits_at_def is_digit_def All_less_Suc numeral_eq_Suc)
  have h2: "\<forall>k<8. \<not> four_digits_at ?f k"
    by (simp add: four_digits_at_def is_digit_def All_less_Suc numeral_eq_Suc)
  have h3: "\<forall>r \<in> set (digit_runs ?f). length r \<le> 4"
    by (simp add: is_digit_def)
  have d: "decimal (take 4 (drop 8 ?f)) = 2024"
    by (simp add: decimal_def digit_val_def)
  have e: "extractYearFromFilename ?f = Some 2024"
    using extractYear_leftmost_four_digits [of ?f] h1 h2 d by metis
  have s: "spec_extractYear ?f = Some 2024"
    using extractYear_leftmost_four_digits [of ?f] h3 e by metis
  have n0: "\<forall>i. \<not> four_digits_at ''readme.txt'' i"
    by (auto simp: four_digits_at_def is_digit_def nth_Cons' numeral_eq_Suc less_Suc_eq All_less_Suc)
  have n: "extractYearFromFilename ''readme.txt'' = None"
    using extractYear_leftmost_four_digits [of "''readme.txt''"] n0 by blast
  have h2': "\<not> (\<exists>k<8. four_digits_at ?f k)" using h2 by blast
  have h3': "list_all (\<lambda>r. length r \<le> 4) (digit_runs ?f)" using h3 by (simp add: list_all_iff)
  show ?thesis using h1 h2' h3' e s n by blast
qed

text \<open>
  The claim as it is worded fails where a run has more than four digits: in
  \<open>th_data_12345_2024.csv\<close> the only run of exactly four digits is \<open>2024\<close>, and the
  function returns 1234.
\<close>

theorem extractYear_longer_run_counterexample:
  "extractYearFromFilename ''th_data_12345_2024.csv'' = Some 1234 \<and>
   digit_runs ''th_data_12345_2024.csv'' = [''12345'', ''2024''] \<and>
   spec_extractYear ''th_data_12345_2024.csv'' = Some 2024"
  by (simp add: spec_extractYear_def digits4_def is_digit_def decimal_def digit_val_def)

subsection \<open>The selected resources and their order\<close>












section \<open>Properties of the format detector\<close>

lemma in_set_takeWhile_iff:
  "x \<in> set (takeWhile P xs) \<longleftrightarrow> (\<exists>i<length xs. xs ! i = x \<and> (\<forall>j\<le>i. P (xs ! j)))"
proof (induction xs)
  case Nil
  then show ?case by simp
next
  case (Cons a xs)
  show ?case
  proof (cases "P a")
    case False
    then show ?thesis by auto
  next
    case True
    have "(\<exists>i<length (a # xs). (a # xs) ! i = x \<and> (\<forall>j\<le>i. P ((a # xs) ! j)))
          \<longleftrightarrow> x = a \<or> (\<exists>i<length xs. xs ! i = x \<and> (\<forall>j\<le>i. P (xs ! j)))"
      (is "?L \<longleftrightarrow> ?R")
    proof
      assume ?L
      then obtain i where i: "i < length (a # xs)" "(a # xs) ! i = x" "\<forall>j\<le>i. P ((a # xs) ! j)"
        by blast
      show ?R
      proof (cases i)
        case 0
        with i show ?thesis by simp
      next
        case (Suc n)
        have "\<forall>j\<le>n. P (xs ! j)"
        proof (intro allI impI)
          fix j assume "j \<le> n"
          then show "P (xs ! j)" using i(3) [rule_format, of "Suc j"] Suc by simp
        qed
        with i Suc show ?thesis by auto
      qed
    next
      assume ?R
      then show ?L
      proof
        assume "x = a"
        with True have "0 < length (a # xs) \<and> (a # xs) ! 0 = x \<and> (\<forall>j\<le>0. P ((a # xs) ! j))" by simp
        then show ?L by blast
      next
        assume "\<exists>i<length xs. xs ! i = x \<and> (\<forall>j\<le>i. P (xs ! j))"
        then obtain i where i: "i < length xs" "xs ! i = x" "\<forall>j\<le>i. P (xs ! j)" by blast
        have "\<forall>j\<le>Suc i. P ((a # xs) ! j)"
        proof (intro allI impI)
          fix j assume "j \<le> Suc i"
          then show "P ((a # xs) ! j)" using i(3) True by (cases j) simp_all
        qed
        with i have "Suc i < length (a # xs) \<and> (a # xs) ! Suc i = x \<and> (\<forall>j\<le>Suc i. P ((a # xs) ! j))"
          by simp
        then show ?L by blast
      qed
    qed
    with True Cons show ?thesis by simp
  qed
qed

lemma semicolon_in_firstLine:
  "CHR '';'' \<in> set (firstLine bytes) \<longleftrightarrow>
   (\<exists>i < min 1024 (length bytes). bytes ! i = CHR '';'' \<and> (\<forall>j<i. bytes ! j \<noteq> CHR 0x0A))"
  (is "?L \<longleftrightarrow> ?R")
proof
  assume ?L
  then obtain i where i: "i < length (take 1024 bytes)" "take 1024 bytes ! i = CHR '';''"
      "\<forall>j\<le>i. take 1024 bytes ! j \<noteq> CHR 0x0A"
    unfolding firstLine_def in_set_takeWhile_iff by blast
  have "\<forall>j<i. bytes ! j \<noteq> CHR 0x0A"
  proof (intro allI impI)
    fix j assume "j < i"
    then show "bytes ! j \<noteq> CHR 0x0A" using i(1) i(3) [rule_format, of j] by simp
  qed
  with i(1,2) show ?R by auto
next
  assume ?R
  then obtain i where i: "i < min 1024 (length bytes)" "bytes ! i = CHR '';''"
      "\<forall>j<i. bytes ! j \<noteq> CHR 0x0A" by blast
  have "\<forall>j\<le>i. take 1024 bytes ! j \<noteq> CHR 0x0A"
  proof (intro allI impI)
    fix j assume j: "j \<le> i"
    show "take 1024 bytes ! j \<noteq> CHR 0x0A"
    proof (cases "j = i")
      case True
      with i show ?thesis by simp
    next
      case False
      with j have "j < i" by simp
      with i show ?thesis by simp
    qed
  qed
  with i(1,2) have "i < length (take 1024 bytes) \<and> take 1024 bytes ! i = CHR '';'' \<and>
      (\<forall>j\<le>i. take 1024 bytes ! j \<noteq> CHR 0x0A)" by simp
  then show ?L unfolding firstLine_def in_set_takeWhile_iff by blast
qed

text \<open>
  Claim C8. \<open>detectDelimiter\<close> looks only at the first line of the first 1024 bytes: it
  returns the semicolon when a semicolon stands among these bytes before any newline,
  whatever the declared format; otherwise the tab when the declared format is tsv, otherwise
  the comma. It is a total function: when the file cannot be read it returns the default of
  the format, the tab for tsv and the comma otherwise.
\<close>

theorem detectDelimiter_first_line:
  "detectDelimiter lead format =
     (case lead of
        None \<Rightarrow> if toLowerCase format = ''tsv'' then CHR 0x09 else CHR '',''
      | Some bytes \<Rightarrow>
          if \<exists>i < min 1024 (length bytes). bytes ! i = CHR '';'' \<and> (\<forall>j<i. bytes ! j \<noteq> CHR 0x0A)
          then CHR '';''
          else if toLowerCase format = ''tsv'' then CHR 0x09 else CHR '','')"
  by (cases lead) (simp_all add: detectDelimiter_def formatDefault_def semicolon_in_firstLine)

text \<open>
  The theorem at five inputs: a semicolon in the first line of a tsv file, a semicolon only in
  the second line, a comma-separated file, and two unreadable files.
\<close>

theorem detectDelimiter_first_line_witness:
  "detectDelimiter (Some ''a;b'') ''TSV'' = CHR '';'' \<and>
   detectDelimiter (Some [CHR ''a'', CHR 0x0A, CHR '';'']) ''TSV'' = CHR 0x09 \<and>
   detectDelimiter (Some ''a,b'') ''csv'' = CHR '','' \<and>
   detectDelimiter None ''tsv'' = CHR 0x09 \<and>
   detectDelimiter None ''csv'' = CHR '',''"
proof -
  have s: "\<exists>i < min 1024 (length ''a;b''). ''a;b'' ! i = CHR '';'' \<and> (\<forall>j<i. ''a;b'' ! j \<noteq> CHR 0x0A)"
    by (rule exI [of _ 1]) (simp add: All_less_Suc)
  have n1: "\<not> (\<exists>i < min 1024 (length [CHR ''a'', CHR 0x0A, CHR '';'']).
      [CHR ''a'', CHR 0x0A, CHR '';''] ! i = CHR '';'' \<and> (\<forall>j<i. [CHR ''a'', CHR 0x0A, CHR '';''] ! j \<noteq> CHR 0x0A))"
    by (auto simp: nth_Cons' less_Suc_eq numeral_eq_Suc split: if_splits)
  have n2: "\<not> (\<exists>i < min 1024 (length ''a,b''). ''a,b'' ! i = CHR '';'' \<and> (\<forall>j<i. ''a,b'' ! j \<noteq> CHR 0x0A))"
    by (auto simp: nth_Cons' less_Suc_eq numeral_eq_Suc split: if_splits)
  have l: "toLowerCase ''TSV'' = ''tsv''" "toLowerCase ''tsv'' = ''tsv''" "toLowerCase ''csv'' = ''csv''"
    by (simp_all add: toLowerCase_def toLowerChar_def)
  show ?thesis
    using detectDelimiter_first_line [of "Some ''a;b''" "''TSV''"]
      detectDelimiter_first_line [of "Some [CHR ''a'', CHR 0x0A, CHR '';'']" "''TSV''"]
      detectDelimiter_first_line [of "Some ''a,b''" "''csv''"]
      detectDelimiter_first_line [of None "''tsv''"]
      detectDelimiter_first_line [of None "''csv''"]
    by (simp only: s n1 n2 l option.case if_True if_False list.inject char.inject simp_thms)
qed

section \<open>Properties of the streaming importer\<close>

subsection \<open>The handler of a record\<close>

lemma onData_rejected:
  "missingRequired (toInvoice year rec) \<Longrightarrow>
   onData year st rec = st\<lparr>errorCount := errorCount st + 1\<rparr>"
  by (simp add: onData_def)

lemma onData_buffered:
  "\<not> missingRequired (toInvoice year rec) \<Longrightarrow> length (records st) < 999 \<Longrightarrow>
   onData year st rec =
     st\<lparr>records := records st @ [toInvoice year rec], recordCount := recordCount st + 1\<rparr>"
  by (simp add: onData_def Let_def)

lemma insertMany_throws:
  "list_ex violatesNotNull b \<Longrightarrow> insertMany b db = Inl SqliteConstraint"
  by (induction b arbitrary: db) (auto simp: insertRun_def)

lemma insertMany_commits:
  "\<not> list_ex violatesNotNull b \<Longrightarrow> \<exists>db'. insertMany b db = Inr db'"
  by (induction b arbitrary: db) (auto simp: insertRun_def)

lemma insertBatch_throws_iff:
  "(\<exists>e. insertBatch b db = Inl e) \<longleftrightarrow> batchThrows b"
proof (cases "list_ex violatesNotNull b")
  case True
  then show ?thesis by (simp add: insertBatch_def batchThrows_def insertMany_throws)
next
  case False
  then obtain db' where "insertMany b db = Inr db'" using insertMany_commits by blast
  with False show ?thesis by (simp add: insertBatch_def batchThrows_def)
qed

lemma onData_flush:
  assumes "\<not> missingRequired (toInvoice year rec)" "999 \<le> length (records st)"
  shows "onData year st rec =
     st\<lparr>records := drop 1000 (records st @ [toInvoice year rec]),
        recordCount := recordCount st + 1,
        flushed := flushed st @ [take 1000 (records st @ [toInvoice year rec])],
        errorCount := errorCount st +
          (if batchThrows (take 1000 (records st @ [toInvoice year rec])) then 1 else 0),
        store := commitBatch (store st) (take 1000 (records st @ [toInvoice year rec]))\<rparr>"
proof -
  let ?b = "take 1000 (records st @ [toInvoice year rec])"
  show ?thesis
  proof (cases "insertBatch ?b (store st)")
    case (Inl e)
    then have "batchThrows ?b" using insertBatch_throws_iff by blast
    with Inl assms show ?thesis by (simp add: onData_def Let_def commitBatch_def)
  next
    case (Inr db')
    then have "\<not> batchThrows ?b" using insertBatch_throws_iff [of ?b "store st"] by auto
    with Inr assms show ?thesis by (simp add: onData_def Let_def commitBatch_def)
  qed
qed


lemma foldl_onData:
  "length (records st) < 1000 \<Longrightarrow>
   foldl (onData year) st recs =
     st\<lparr>records := snd (batching (records st) (acceptedInvoices year recs)),
        recordCount := recordCount st + length (acceptedInvoices year recs),
        errorCount := errorCount st + rejectedCount year recs
          + length (filter batchThrows (fst (batching (records st) (acceptedInvoices year recs)))),
        flushed := flushed st @ fst (batching (records st) (acceptedInvoices year recs)),
        store := foldl commitBatch (store st)
                   (fst (batching (records st) (acceptedInvoices year recs)))\<rparr>"
proof (induction recs arbitrary: st)
  case Nil
  then show ?case by (simp add: acceptedInvoices_def rejectedCount_def)
next
  case (Cons rec recs)
  let ?iv = "toInvoice year rec"
  show ?case
  proof (cases "missingRequired ?iv")
    case True
    have acc: "acceptedInvoices year (rec # recs) = acceptedInvoices year recs"
      using True by (simp add: acceptedInvoices_def)
    have rej: "rejectedCount year (rec # recs) = Suc (rejectedCount year recs)"
      using True by (simp add: rejectedCount_def)
    have len: "length (records (st\<lparr>errorCount := errorCount st + 1\<rparr>)) < 1000"
      using Cons.prems by simp
    show ?thesis
      by (simp only: foldl_Cons onData_rejected [OF True] Cons.IH [OF len] acc rej) simp
  next
    case False
    have acc: "acceptedInvoices year (rec # recs) = ?iv # acceptedInvoices year recs"
      using False by (simp add: acceptedInvoices_def)
    have rej: "rejectedCount year (rec # recs) = rejectedCount year recs"
      using False by (simp add: rejectedCount_def)
    show ?thesis
    proof (cases "length (records st) < 999")
      case True
      let ?st = "st\<lparr>records := records st @ [?iv], recordCount := recordCount st + 1\<rparr>"
      have len: "length (records ?st) < 1000" using True by simp
      have bat: "batching (records st) (?iv # acceptedInvoices year recs)
                 = batching (records st @ [?iv]) (acceptedInvoices year recs)"
        using True by simp
      show ?thesis
        by (simp only: foldl_Cons onData_buffered [OF False True] Cons.IH [OF len] acc rej bat)
          simp
    next
      case F2: False
      then have ge: "999 \<le> length (records st)" by simp
      let ?b = "take 1000 (records st @ [?iv])"
      let ?st = "st\<lparr>records := drop 1000 (records st @ [?iv]),
        recordCount := recordCount st + 1,
        flushed := flushed st @ [?b],
        errorCount := errorCount st + (if batchThrows ?b then 1 else 0),
        store := commitBatch (store st) ?b\<rparr>"
      have len: "length (records ?st) < 1000" using Cons.prems by simp
      have bat: "batching (records st) (?iv # acceptedInvoices year recs)
                 = (?b # fst (batching (drop 1000 (records st @ [?iv])) (acceptedInvoices year recs)),
                    snd (batching (drop 1000 (records st @ [?iv])) (acceptedInvoices year recs)))"
        using ge by simp
      show ?thesis
        by (simp only: foldl_Cons onData_flush [OF False ge] Cons.IH [OF len] acc rej bat)
          simp
    qed
  qed
qed

subsection \<open>Batches\<close>

lemma batching_concat: "concat (fst (batching buf xs)) @ snd (batching buf xs) = buf @ xs"
proof (induction xs arbitrary: buf)
  case Nil
  then show ?case by simp
next
  case (Cons x xs)
  show ?case
  proof (cases "1000 \<le> length (buf @ [x])")
    case True
    have "take 1000 (buf @ [x]) @ concat (fst (batching (drop 1000 (buf @ [x])) xs))
            @ snd (batching (drop 1000 (buf @ [x])) xs)
          = take 1000 (buf @ [x]) @ drop 1000 (buf @ [x]) @ xs"
      by (simp only: Cons.IH)
    also have "\<dots> = (buf @ [x]) @ xs" by (simp only: append_assoc [symmetric] append_take_drop_id)
    finally show ?thesis using True by simp
  next
    case False
    then show ?thesis using Cons.IH [of "buf @ [x]"] by simp
  qed
qed

lemma batching_rest_short: "length buf < 1000 \<Longrightarrow> length (snd (batching buf xs)) < 1000"
proof (induction xs arbitrary: buf)
  case Nil
  then show ?case by simp
next
  case (Cons x xs)
  show ?case
  proof (cases "1000 \<le> length (buf @ [x])")
    case True
    have "length (drop 1000 (buf @ [x])) < 1000" using Cons.prems by simp
    then show ?thesis using True Cons.IH by simp
  next
    case False
    then have "length (buf @ [x]) < 1000" by simp
    then show ?thesis using False Cons.IH [of "buf @ [x]"] by simp
  qed
qed

lemma batching_full: "length buf < 1000 \<Longrightarrow> b \<in> set (fst (batching buf xs)) \<Longrightarrow> length b = 1000"
proof (induction xs arbitrary: buf)
  case Nil
  then show ?case by simp
next
  case (Cons x xs)
  show ?case
  proof (cases "1000 \<le> length (buf @ [x])")
    case True
    have short: "length (drop 1000 (buf @ [x])) < 1000" using Cons.prems(1) by simp
    from Cons.prems(2) True
    have "b = take 1000 (buf @ [x]) \<or> b \<in> set (fst (batching (drop 1000 (buf @ [x])) xs))"
      by simp
    then show ?thesis
    proof
      assume "b = take 1000 (buf @ [x])"
      then show ?thesis using True by simp
    next
      assume "b \<in> set (fst (batching (drop 1000 (buf @ [x])) xs))"
      then show ?thesis using Cons.IH [OF short] by simp
    qed
  next
    case False
    then have "length (buf @ [x]) < 1000" by simp
    moreover have "b \<in> set (fst (batching (buf @ [x]) xs))" using False Cons.prems(2) by simp
    ultimately show ?thesis by (rule Cons.IH)
  qed
qed

lemma batching_small: "length buf + length xs < 1000 \<Longrightarrow> batching buf xs = ([], buf @ xs)"
  by (induction xs arbitrary: buf) simp_all

lemma length_concat_full:
  "(\<And>b. b \<in> set bs \<Longrightarrow> length b = n) \<Longrightarrow> length (concat bs) = n * length bs"
  by (induction bs) simp_all

lemma batching_one:
  assumes "length buf < 1000" "1000 \<le> length (buf @ xs)" "length (buf @ xs) < 2000"
  shows "batching buf xs = ([take 1000 (buf @ xs)], drop 1000 (buf @ xs))"
proof -
  let ?bs = "fst (batching buf xs)" and ?r = "snd (batching buf xs)"
  have c: "concat ?bs @ ?r = buf @ xs" by (rule batching_concat)
  have f: "\<And>b. b \<in> set ?bs \<Longrightarrow> length b = 1000" using assms(1) by (rule batching_full)
  have r: "length ?r < 1000" using assms(1) by (rule batching_rest_short)
  have "length (concat ?bs) + length ?r = length (buf @ xs)"
    using c by (metis length_append)
  then have l: "1000 * length ?bs + length ?r = length (buf @ xs)"
    using length_concat_full [of ?bs 1000] f by simp
  have one: "length ?bs = 1" using l r assms(2,3) by arith
  then obtain b where b: "?bs = [b]" by (cases ?bs) simp_all
  then have lb: "length b = 1000" using f by simp
  from c b have "b @ ?r = buf @ xs" by simp
  then have "b = take 1000 (buf @ xs) \<and> ?r = drop 1000 (buf @ xs)"
    using lb by (metis append_eq_conv_conj)
  with b show ?thesis by (metis prod.collapse)
qed

subsection \<open>Rejected records\<close>

lemma orDefault_empty_iff:
  "orDefault a b [] = [] \<longleftrightarrow> (a = None \<or> a = Some []) \<and> (b = None \<or> b = Some [])"
  by (cases a; cases b) (auto simp: orDefault_def js_or_def truthy_def)

lemma missingRequired_iff: "missingRequired (toInvoice year rec) \<longleftrightarrow> spec_rejected rec"
  by (simp add: missingRequired_def toInvoice_def spec_rejected_def emptyAfterResolution_def
      orDefault_empty_iff)

text \<open>
  Claim C5. When one of the invoice identifier, the procurement unit, the procurement category
  and the posting date is empty after alias resolution, the handler rejects the record: the
  error count goes up by one, the record count, the buffer, the batches handed to storage and
  the database stay as they are, the handler returns without an exception (no call of
  \<open>insertBatch\<close> is made), and the records that follow are processed from that state.
\<close>

theorem record_missing_required_field_is_rejected:
  "spec_rejected rec \<Longrightarrow>
   errorCount (onData year st rec) = errorCount st + 1 \<and>
   recordCount (onData year st rec) = recordCount st \<and>
   records (onData year st rec) = records st \<and>
   flushed (onData year st rec) = flushed st \<and>
   store (onData year st rec) = store st \<and>
   foldl (onData year) st (rec # rest)
     = foldl (onData year) (st\<lparr>errorCount := errorCount st + 1\<rparr>) rest"
  by (simp add: onData_rejected missingRequired_iff)

text \<open>
  The theorem at a record without a posting date, followed by a complete record, which is
  accepted.
\<close>

theorem record_missing_required_field_is_rejected_witness:
  "spec_rejected (sampleRecord(''tositepvm'' := None)) \<and>
   errorCount (onData (Some 2024) (newImporter emptyDatabase) (sampleRecord(''tositepvm'' := None))) = 1 \<and>
   recordCount (onData (Some 2024) (newImporter emptyDatabase) (sampleRecord(''tositepvm'' := None))) = 0 \<and>
   store (onData (Some 2024) (newImporter emptyDatabase) (sampleRecord(''tositepvm'' := None)))
     = emptyDatabase \<and>
   recordCount (foldl (onData (Some 2024)) (newImporter emptyDatabase)
     [sampleRecord(''tositepvm'' := None), sampleRecord]) = 1"
proof -
  let ?bad = "sampleRecord(''tositepvm'' := None)"
  have h: "spec_rejected ?bad"
    by (simp add: spec_rejected_def emptyAfterResolution_def sampleRecord_def)
  have ok: "\<not> missingRequired (toInvoice (Some 2024) sampleRecord)"
    by (simp add: missingRequired_iff spec_rejected_def emptyAfterResolution_def sampleRecord_def)
  have next_one: "recordCount (onData (Some 2024)
      ((newImporter emptyDatabase)\<lparr>errorCount := errorCount (newImporter emptyDatabase) + 1\<rparr>)
      sampleRecord) = 1"
    using ok by (simp add: onData_buffered newImporter_def)
  show ?thesis
    using record_missing_required_field_is_rejected
      [OF h, of "Some 2024" "newImporter emptyDatabase" "[sampleRecord]"] h next_one
    by (simp add: newImporter_def)
qed

subsection \<open>A whole file\<close>

lemma importCSVFile_end:
  assumes "parsed file (detectDelimiter (head_bytes file) (toLowerCase (res_format r))) = (recs, End)"
  shows "importCSVFile file r db
         = onEnd r (foldl (onData (extractYearFromFilename (res_name r))) (newImporter db) recs)"
  using assms by (simp add: importCSVFile_def Let_def)

lemma importCSVFile_error:
  assumes "parsed file (detectDelimiter (head_bytes file) (toLowerCase (res_format r)))
           = (recs, ParseError msg)"
  shows "importCSVFile file r db
         = (Rejected msg, foldl (onData (extractYearFromFilename (res_name r))) (newImporter db) recs)"
  using assms by (simp add: importCSVFile_def Let_def)

lemma foldl_onData_new:
  "foldl (onData year) (newImporter db) recs =
     \<lparr>records = snd (batching [] (acceptedInvoices year recs)),
      recordCount = length (acceptedInvoices year recs),
      errorCount = rejectedCount year recs
          + length (filter batchThrows (fst (batching [] (acceptedInvoices year recs)))),
      flushed = fst (batching [] (acceptedInvoices year recs)),
      store = foldl commitBatch db (fst (batching [] (acceptedInvoices year recs)))\<rparr>"
proof -
  have "length (records (newImporter db)) < 1000" by (simp add: newImporter_def)
  then show ?thesis by (simp add: foldl_onData) (simp add: newImporter_def)
qed

lemma commitBatch_commits:
  "\<not> batchThrows b \<Longrightarrow> insertBatch b db = Inr (commitBatch db b)"
  using insertBatch_throws_iff [of b db] by (cases "insertBatch b db") (auto simp: commitBatch_def)

lemma commitBatch_throws: "batchThrows b \<Longrightarrow> commitBatch db b = db"
  using insertBatch_throws_iff [of b db] by (cases "insertBatch b db") (auto simp: commitBatch_def)

text \<open>The sample data, evaluated.\<close>

lemma sample_year: "extractYearFromFilename (res_name sampleResource) = Some 2024"
  by (simp add: sampleResource_def digits4_def is_digit_def decimal_def digit_val_def)

lemma parseFloat_sample: "parseFloat ''12.50'' = Num (25 / 2)"
  by (simp add: parseFloat_def parseSign_def parseExponent_def pow10_def is_space_def is_digit_def
      decimal_def digit_val_def Let_def)

lemma sample_invoice:
  "toInvoice year sampleRecord =
     \<lparr>lasku_id = ''A1'', hankintayksikko = ''Espoo'', hankintayksikko_tunnus = None,
      ylaorganisaatio = None, ylaorganisaatio_tunnus = None, toimittaja_y_tunnus = None,
      toimittaja_nimi = None, toimittaja_kunta = None, tili = None,
      hankintakategoria = ''ICT'', tuote_palveluryhma = None, tositepvm = ''2024-01-31'',
      tiliointisumma = Num (25 / 2), sektori = None, data_year = year\<rparr>"
  by (simp add: toInvoice_def sampleRecord_def orDefault_def orNull_def js_or_def truthy_def
      parseFloat_sample)

lemma sample_accepted_one: "\<not> missingRequired (toInvoice year sampleRecord)"
  by (simp add: sample_invoice missingRequired_def)

lemma sample_accepted:
  "acceptedInvoices year (replicate n sampleRecord) = replicate n (toInvoice year sampleRecord)"
  by (simp add: acceptedInvoices_def sample_accepted_one)

lemma sample_rejected: "rejectedCount year (replicate n sampleRecord) = 0"
  by (simp add: rejectedCount_def sample_accepted_one)

lemma sample_parsed: "parsed (sampleFile n) d = (replicate n sampleRecord, End)"
  by (simp add: sampleFile_def)

subsection \<open>The amount\<close>

lemma parseFloat_zero: "parseFloat ''0'' = Num 0"
  by (simp add: parseFloat_def parseSign_def parseExponent_def pow10_def is_space_def is_digit_def
      decimal_def digit_val_def Let_def)

lemma parseFloat_abc: "parseFloat ''abc'' = NaN"
  by (simp add: parseFloat_def parseSign_def is_space_def is_digit_def Let_def)

lemma amount_missing_is_zero:
  "\<not> truthy (rec ''tiliointisumma'') \<Longrightarrow> \<not> truthy (rec ''posting_sum'') \<Longrightarrow>
   tiliointisumma (toInvoice year rec) = Num 0"
  by (auto simp: toInvoice_def orDefault_def js_or_def truthy_def parseFloat_zero
      split: option.splits)

lemma amount_not_validated:
  "missingRequired (toInvoice year (rec(''tiliointisumma'' := a, ''posting_sum'' := b)))
   = missingRequired (toInvoice year rec)"
  by (simp add: missingRequired_def toInvoice_def)

lemma bad_invoice:
  "toInvoice year badAmountRecord = (toInvoice year sampleRecord)\<lparr>tiliointisumma := NaN\<rparr>"
  by (simp add: toInvoice_def badAmountRecord_def sampleRecord_def orDefault_def orNull_def
      js_or_def truthy_def parseFloat_abc)

lemma sample_undated_year: "extractYearFromFilename (res_name undatedResource) = None"
  by (simp add: undatedResource_def sampleResource_def digits4_def is_digit_def)

text \<open>
  Claim C1, at a record that is complete but for the amount \<open>abc\<close>, in a file of that one
  record. The claim has the stored amount be zero. In the code \<open>parseFloat\<close> of a text
  that does not start with a number is NaN, and the default \<open>0\<close> stands in only for an
  absent or empty cell: the invoice passes the validation and is buffered with the amount NaN,
  the batch that holds it violates the \<open>NOT NULL\<close> constraint of the amount column, and
  here, where that batch is the last one, the exception leaves the \<open>end\<close> handler and
  nothing is stored. An absent amount does give zero.
\<close>

theorem unparseable_amount_is_stored_as_NaN:
  "tiliointisumma (toInvoice (Some 2024) badAmountRecord) = NaN \<and>
   \<not> missingRequired (toInvoice (Some 2024) badAmountRecord) \<and>
   records (onData (Some 2024) (newImporter emptyDatabase) badAmountRecord)
     = [(toInvoice (Some 2024) sampleRecord)\<lparr>tiliointisumma := NaN\<rparr>] \<and>
   fst (importCSVFile badAmountFile sampleResource emptyDatabase) = Uncaught SqliteConstraint \<and>
   store (snd (importCSVFile badAmountFile sampleResource emptyDatabase)) = emptyDatabase \<and>
   tiliointisumma (toInvoice (Some 2024) (sampleRecord(''tiliointisumma'' := None))) = Num 0"
proof -
  have a: "tiliointisumma (toInvoice (Some 2024) badAmountRecord) = NaN"
    by (simp add: bad_invoice)
  have b: "\<not> missingRequired (toInvoice (Some 2024) badAmountRecord)"
    by (simp add: bad_invoice sample_invoice missingRequired_def)
  have c: "records (onData (Some 2024) (newImporter emptyDatabase) badAmountRecord)
     = [(toInvoice (Some 2024) sampleRecord)\<lparr>tiliointisumma := NaN\<rparr>]"
  proof -
    have "length (records (newImporter emptyDatabase)) < 999" by (simp add: newImporter_def)
    then show ?thesis
      by (simp add: onData_buffered [OF b]) (simp add: newImporter_def bad_invoice)
  qed
  have p: "parsed badAmountFile (detectDelimiter (head_bytes badAmountFile)
      (toLowerCase (res_format sampleResource))) = ([badAmountRecord], End)"
    by (simp add: badAmountFile_def)
  have acc: "acceptedInvoices (Some 2024) [badAmountRecord] = [toInvoice (Some 2024) badAmountRecord]"
    using b by (simp add: acceptedInvoices_def)
  have thr: "insertBatch [toInvoice (Some 2024) badAmountRecord] emptyDatabase = Inl SqliteConstraint"
    by (simp add: insertBatch_def insertRun_def violatesNotNull_def a)
  have imp: "importCSVFile badAmountFile sampleResource emptyDatabase
      = (Uncaught SqliteConstraint,
         \<lparr>records = [toInvoice (Some 2024) badAmountRecord], recordCount = 1,
          errorCount = rejectedCount (Some 2024) [badAmountRecord],
          flushed = [[toInvoice (Some 2024) badAmountRecord]], store = emptyDatabase\<rparr>)"
  proof -
    have st: "foldl (onData (Some 2024)) (newImporter emptyDatabase) [badAmountRecord]
        = \<lparr>records = [toInvoice (Some 2024) badAmountRecord], recordCount = 1,
           errorCount = rejectedCount (Some 2024) [badAmountRecord],
           flushed = [], store = emptyDatabase\<rparr>"
      by (simp only: foldl_onData_new acc) simp
    show ?thesis
      by (simp only: importCSVFile_end [OF p] sample_year st) (simp add: onEnd_def thr)
  qed
  have z: "tiliointisumma (toInvoice (Some 2024) (sampleRecord(''tiliointisumma'' := None))) = Num 0"
    by (rule amount_missing_is_zero) (simp_all add: truthy_def sampleRecord_def)
  show ?thesis using a b c z by (simp add: imp)
qed

subsection \<open>A batch that throws\<close>

lemma foldl_onData_records:
  "records (foldl (onData year) (newImporter db) recs) = snd (batching [] (acceptedInvoices year recs))"
  by (simp add: foldl_onData_new)

lemma onEnd_resolved:
  assumes "\<not> batchThrows (records st)"
  shows "fst (onEnd r st) = Resolved (recordCount st) (errorCount st) \<and>
         dataset_metadata (store (snd (onEnd r st)))
           = filter (\<lambda>row. resource_id (snd row) \<noteq> res_id r)
               (dataset_metadata (commitBatch (store st) (records st)))
             @ [(Suc (metadata_seq (commitBatch (store st) (records st))),
                 \<lparr>resource_id = res_id r, resource_name = res_name r, resource_url = res_url r,
                  file_format = res_format r,
                  ledger_year = extractYearFromFilename (res_name r),
                  last_modified = res_last_modified r,
                  records_imported = recordCount st, status = ''completed''\<rparr>)] \<and>
         procurement_invoices (store (snd (onEnd r st)))
           = procurement_invoices (commitBatch (store st) (records st))"
proof (cases "records st = []")
  case True
  then have "commitBatch (store st) (records st) = store st"
    by (simp add: commitBatch_def insertBatch_def)
  with True show ?thesis by (simp add: onEnd_def updateMetadata_def)
next
  case False
  have "insertBatch (records st) (store st) = Inr (commitBatch (store st) (records st))"
    using assms by (rule commitBatch_commits)
  with False show ?thesis by (simp add: onEnd_def updateMetadata_def Let_def)
qed

lemma onEnd_uncaught:
  assumes "batchThrows (records st)"
  shows "fst (onEnd r st) = Uncaught SqliteConstraint \<and> store (snd (onEnd r st)) = store st"
proof -
  have ne: "records st \<noteq> []" using assms by (auto simp: batchThrows_def)
  have "insertBatch (records st) (store st) = Inl SqliteConstraint"
    using assms by (simp add: insertBatch_def batchThrows_def insertMany_throws)
  with ne show ?thesis by (simp add: onEnd_def Let_def)
qed

lemma undated_invoice_violates: "violatesNotNull (toInvoice None sampleRecord)"
  by (simp add: violatesNotNull_def sample_invoice)

lemma undated_batch_throws: "0 < n \<Longrightarrow> batchThrows (replicate n (toInvoice None sampleRecord))"
  by (simp add: batchThrows_def list_ex_iff undated_invoice_violates)

lemma undated_import_state:
  assumes "1000 \<le> n" "n < 2000"
  shows "foldl (onData None) (newImporter emptyDatabase) (replicate n sampleRecord)
         = \<lparr>records = replicate (n - 1000) (toInvoice None sampleRecord),
            recordCount = n, errorCount = 1,
            flushed = [replicate 1000 (toInvoice None sampleRecord)],
            store = emptyDatabase\<rparr>"
proof -
  let ?iv = "toInvoice None sampleRecord"
  have bat: "batching [] (replicate n ?iv) = ([take 1000 (replicate n ?iv)], drop 1000 (replicate n ?iv))"
    using batching_one [of "[]" "replicate n ?iv"] assms by simp
  have tk: "take 1000 (replicate n ?iv) = replicate 1000 ?iv" using assms by simp
  have thr: "batchThrows (replicate 1000 ?iv)" by (rule undated_batch_throws) simp
  show ?thesis
    by (simp only: foldl_onData_new sample_accepted sample_rejected bat tk fst_conv snd_conv)
      (simp add: thr commitBatch_throws)
qed

subsection \<open>Importing a file again\<close>

lemma insertRun_rows:
  "insertRun iv db = Inr db' \<Longrightarrow> invoiceRows db' = upsert (invoiceRows db) iv"
  by (auto simp: insertRun_def invoiceRows_def upsert_def filter_map comp_def split: if_splits)

lemma insertRun_ledger:
  "insertRun iv db = Inr db' \<Longrightarrow> dataset_metadata db' = dataset_metadata db \<and>
     metadata_seq db' = metadata_seq db"
  by (auto simp: insertRun_def split: if_splits)

lemma insertMany_rows:
  "insertMany b db = Inr db' \<Longrightarrow> invoiceRows db' = foldl upsert (invoiceRows db) b"
proof (induction b arbitrary: db)
  case Nil
  then show ?case by simp
next
  case (Cons iv b)
  then obtain db1 where 1: "insertRun iv db = Inr db1" and 2: "insertMany b db1 = Inr db'"
    by (auto split: sum.splits)
  show ?case using insertRun_rows [OF 1] Cons.IH [OF 2] by simp
qed

lemma insertMany_ledger:
  "insertMany b db = Inr db' \<Longrightarrow> dataset_metadata db' = dataset_metadata db \<and>
     metadata_seq db' = metadata_seq db"
proof (induction b arbitrary: db)
  case Nil
  then show ?case by simp
next
  case (Cons iv b)
  then obtain db1 where 1: "insertRun iv db = Inr db1" and 2: "insertMany b db1 = Inr db'"
    by (auto split: sum.splits)
  show ?case using insertRun_ledger [OF 1] Cons.IH [OF 2] by simp
qed

lemma commitBatch_rows:
  "invoiceRows (commitBatch db b)
   = (if batchThrows b then invoiceRows db else foldl upsert (invoiceRows db) b)"
proof (cases "batchThrows b")
  case True
  then show ?thesis by (simp add: commitBatch_throws)
next
  case False
  then have "insertMany b db = Inr (commitBatch db b)"
    using commitBatch_commits [of b db] by (simp add: insertBatch_def)
  then show ?thesis using False by (simp add: insertMany_rows)
qed

lemma commitBatch_ledger:
  "dataset_metadata (commitBatch db b) = dataset_metadata db \<and>
   metadata_seq (commitBatch db b) = metadata_seq db"
proof (cases "batchThrows b")
  case True
  then show ?thesis by (simp add: commitBatch_throws)
next
  case False
  then have "insertMany b db = Inr (commitBatch db b)"
    using commitBatch_commits [of b db] by (simp add: insertBatch_def)
  then show ?thesis by (rule insertMany_ledger)
qed

lemma commitBatches_rows:
  "invoiceRows (foldl commitBatch db bs)
   = foldl upsert (invoiceRows db) (concat (filter (\<lambda>b. \<not> batchThrows b) bs))"
  by (induction bs arbitrary: db) (simp_all add: commitBatch_rows)

lemma commitBatches_ledger:
  "dataset_metadata (foldl commitBatch db bs) = dataset_metadata db \<and>
   metadata_seq (foldl commitBatch db bs) = metadata_seq db"
  by (induction bs arbitrary: db) (simp_all add: commitBatch_ledger)

lemma updateMetadata_rows: "invoiceRows (updateMetadata r n db) = invoiceRows db"
  by (simp add: updateMetadata_def invoiceRows_def)

lemma onEnd_rows:
  "invoiceRows (store (snd (onEnd r st)))
   = foldl upsert (invoiceRows (store st)) (if batchThrows (records st) then [] else records st)"
proof (cases "batchThrows (records st)")
  case True
  then show ?thesis using onEnd_uncaught [OF True, of r] by simp
next
  case False
  have "invoiceRows (store (snd (onEnd r st))) = invoiceRows (commitBatch (store st) (records st))"
    using onEnd_resolved [OF False, of r] by (simp add: invoiceRows_def)
  then show ?thesis using False by (simp add: commitBatch_rows)
qed

lemma importCSVFile_rows:
  "\<exists>ivs. \<forall>db. invoiceRows (store (snd (importCSVFile file r db))) = foldl upsert (invoiceRows db) ivs"
proof -
  define year where "year = extractYearFromFilename (res_name r)"
  obtain recs ending where
    p: "parsed file (detectDelimiter (head_bytes file) (toLowerCase (res_format r))) = (recs, ending)"
    by (cases "parsed file (detectDelimiter (head_bytes file) (toLowerCase (res_format r)))")
  define bs where "bs = fst (batching [] (acceptedInvoices year recs))"
  define rest where "rest = snd (batching [] (acceptedInvoices year recs))"
  define kept where "kept = concat (filter (\<lambda>b. \<not> batchThrows b) bs)"
  have st: "store (foldl (onData year) (newImporter db) recs) = foldl commitBatch db bs"
       "records (foldl (onData year) (newImporter db) recs) = rest" for db
    by (simp_all add: foldl_onData_new bs_def rest_def)
  show ?thesis
  proof (cases ending)
    case End
    have "invoiceRows (store (snd (importCSVFile file r db)))
          = foldl upsert (invoiceRows db) (kept @ (if batchThrows rest then [] else rest))" for db
      using p End
      by (simp add: importCSVFile_end year_def [symmetric] onEnd_rows st commitBatches_rows
          kept_def)
    then show ?thesis by blast
  next
    case (ParseError msg)
    have "invoiceRows (store (snd (importCSVFile file r db))) = foldl upsert (invoiceRows db) kept"
      for db
      using p ParseError
      by (simp add: importCSVFile_error year_def [symmetric] st commitBatches_rows kept_def)
    then show ?thesis by blast
  qed
qed

lemma upserts_closed_form:
  "foldl upsert rows ivs
   = filter (\<lambda>row. lasku_id row \<notin> lasku_id ` set ivs) rows @ keepLast ivs"
proof (induction ivs arbitrary: rows)
  case Nil
  then show ?case by simp
next
  case (Cons iv ivs)
  have "foldl upsert rows (iv # ivs) = foldl upsert (upsert rows iv) ivs" by simp
  also have "\<dots> = filter (\<lambda>row. lasku_id row \<notin> lasku_id ` set ivs) (upsert rows iv) @ keepLast ivs"
    by (rule Cons.IH)
  also have "\<dots> = filter (\<lambda>row. lasku_id row \<notin> lasku_id ` set (iv # ivs)) rows
                   @ keepLast (iv # ivs)"
    by (auto simp: upsert_def intro: filter_cong)
  finally show ?case .
qed

lemma keepLast_keys: "lasku_id ` set (keepLast ivs) = lasku_id ` set ivs"
  by (induction ivs) auto

lemma upserts_idempotent: "foldl upsert (foldl upsert rows ivs) ivs = foldl upsert rows ivs"
proof -
  have "filter (\<lambda>row. lasku_id row \<notin> lasku_id ` set ivs) (keepLast ivs) = []"
    using keepLast_keys [of ivs] by (auto simp: filter_empty_conv)
  then show ?thesis by (simp add: upserts_closed_form)
qed

lemma upsert_distinct:
  "distinct (map lasku_id rows) \<Longrightarrow> distinct (map lasku_id (upsert rows iv))"
  by (auto simp: upsert_def distinct_map_filter)

lemma upserts_distinct:
  "distinct (map lasku_id rows) \<Longrightarrow> distinct (map lasku_id (foldl upsert rows ivs))"
  by (induction ivs arbitrary: rows) (simp_all add: upsert_distinct)

lemma sample_import_rows:
  "invoiceRows (store (snd (importCSVFile (sampleFile 2) sampleResource emptyDatabase)))
   = [toInvoice (Some 2024) sampleRecord]"
proof -
  let ?iv = "toInvoice (Some 2024) sampleRecord"
  have p: "parsed (sampleFile 2)
      (detectDelimiter (head_bytes (sampleFile 2)) (toLowerCase (res_format sampleResource)))
      = (replicate 2 sampleRecord, End)"
    by (rule sample_parsed)
  have bat: "batching [] (replicate 2 ?iv) = ([], replicate 2 ?iv)"
    using batching_small [of "[]" "replicate 2 ?iv"] by simp
  have nv: "\<not> violatesNotNull ?iv" by (simp add: violatesNotNull_def sample_invoice)
  have nt: "\<not> batchThrows (replicate 2 ?iv)" using nv by (simp add: batchThrows_def list_ex_iff)
  have st: "foldl (onData (Some 2024)) (newImporter emptyDatabase) (replicate 2 sampleRecord)
      = \<lparr>records = replicate 2 ?iv, recordCount = 2, errorCount = 0, flushed = [],
         store = emptyDatabase\<rparr>"
    by (simp only: foldl_onData_new sample_accepted sample_rejected bat fst_conv snd_conv) simp
  have "invoiceRows (store (snd (importCSVFile (sampleFile 2) sampleResource emptyDatabase)))
      = foldl upsert (invoiceRows emptyDatabase) (replicate 2 ?iv)"
    by (simp only: importCSVFile_end [OF p] sample_year st onEnd_rows) (simp add: nt)
  also have "\<dots> = [?iv]"
    by (simp add: invoiceRows_def emptyDatabase_def upsert_def numeral_2_eq_2)
  finally show ?thesis .
qed

text \<open>
  Claim C4. Importing a file and then importing the same file again leaves the invoice table
  with the same rows as importing it once: the same number of rows, and the same values in
  the imported columns of every row, in the same order (the \<open>id\<close> that storage gives a row
  is new after a replacement). Each write is an insert-or-replace by \<open>lasku_id\<close>: it removes
  the row with that identifier and adds the new one, so that identifiers that were unique
  before an import are unique after it. This holds for every file, well-formed or not.
\<close>

theorem importing_twice_is_importing_once:
  "invoiceRows (store (snd (importCSVFile file r (store (snd (importCSVFile file r db))))))
     = invoiceRows (store (snd (importCSVFile file r db))) \<and>
   length (procurement_invoices
             (store (snd (importCSVFile file r (store (snd (importCSVFile file r db)))))))
     = length (procurement_invoices (store (snd (importCSVFile file r db)))) \<and>
   (distinct (map lasku_id (invoiceRows db)) \<longrightarrow>
      distinct (map lasku_id (invoiceRows (store (snd (importCSVFile file r db)))))) \<and>
   (insertRun iv db = Inr db' \<longrightarrow>
      invoiceRows db' = filter (\<lambda>row. lasku_id row \<noteq> lasku_id iv) (invoiceRows db) @ [iv])"
proof -
  obtain ivs where ivs: "\<And>d. invoiceRows (store (snd (importCSVFile file r d)))
      = foldl upsert (invoiceRows d) ivs"
    using importCSVFile_rows [of "file" r] by blast
  have same: "invoiceRows (store (snd (importCSVFile file r (store (snd (importCSVFile file r db))))))
     = invoiceRows (store (snd (importCSVFile file r db)))"
    by (simp add: ivs upserts_idempotent)
  have "length (invoiceRows (store (snd (importCSVFile file r (store (snd (importCSVFile file r db)))))))
     = length (invoiceRows (store (snd (importCSVFile file r db))))"
    by (simp only: same)
  then have count: "length (procurement_invoices
             (store (snd (importCSVFile file r (store (snd (importCSVFile file r db)))))))
     = length (procurement_invoices (store (snd (importCSVFile file r db))))"
    by (simp add: invoiceRows_def)
  have dist: "distinct (map lasku_id (invoiceRows (store (snd (importCSVFile file r db)))))"
    if "distinct (map lasku_id (invoiceRows db))"
    using that by (simp add: ivs upserts_distinct)
  have step: "invoiceRows db' = filter (\<lambda>row. lasku_id row \<noteq> lasku_id iv) (invoiceRows db) @ [iv]"
    if "insertRun iv db = Inr db'"
    using insertRun_rows [OF that] by (simp add: upsert_def)
  show ?thesis using same count dist step by blast
qed

text \<open>
  The theorem at a file of two records with the same identifier, imported twice into an empty
  database: one row after the first import, the same row after the second.
\<close>

theorem importing_twice_is_importing_once_witness:
  "invoiceRows (store (snd (importCSVFile (sampleFile 2) sampleResource emptyDatabase)))
     = [toInvoice (Some 2024) sampleRecord] \<and>
   invoiceRows (store (snd (importCSVFile (sampleFile 2) sampleResource
       (store (snd (importCSVFile (sampleFile 2) sampleResource emptyDatabase))))))
     = [toInvoice (Some 2024) sampleRecord] \<and>
   length (procurement_invoices (store (snd (importCSVFile (sampleFile 2) sampleResource
       (store (snd (importCSVFile (sampleFile 2) sampleResource emptyDatabase))))))) = 1 \<and>
   insertRun (toInvoice (Some 2024) sampleRecord) emptyDatabase
     = Inr (emptyDatabase\<lparr>procurement_invoices := [(1, toInvoice (Some 2024) sampleRecord)],
                          invoices_seq := 1\<rparr>) \<and>
   invoiceRows (emptyDatabase\<lparr>procurement_invoices := [(1, toInvoice (Some 2024) sampleRecord)],
                            invoices_seq := 1\<rparr>)
     = [toInvoice (Some 2024) sampleRecord]"
proof -
  let ?iv = "toInvoice (Some 2024) sampleRecord"
  let ?db' = "emptyDatabase\<lparr>procurement_invoices := [(1, ?iv)], invoices_seq := 1\<rparr>"
  have d: "distinct (map lasku_id (invoiceRows emptyDatabase))"
    by (simp add: invoiceRows_def emptyDatabase_def)
  have nv: "\<not> violatesNotNull ?iv" by (simp add: violatesNotNull_def sample_invoice)
  have i: "insertRun ?iv emptyDatabase = Inr ?db'"
    using nv by (simp add: insertRun_def emptyDatabase_def)
  have e: "filter (\<lambda>row. lasku_id row \<noteq> lasku_id ?iv) (invoiceRows emptyDatabase) @ [?iv] = [?iv]"
    by (simp add: invoiceRows_def emptyDatabase_def)
  have one: "length (procurement_invoices (store (snd (importCSVFile (sampleFile 2) sampleResource
      emptyDatabase)))) = 1"
  proof -
    have "length (invoiceRows (store (snd (importCSVFile (sampleFile 2) sampleResource
        emptyDatabase)))) = 1"
      by (simp only: sample_import_rows) simp
    then show ?thesis by (simp add: invoiceRows_def)
  qed
  show ?thesis
    using importing_twice_is_importing_once
      [of "sampleFile 2" sampleResource emptyDatabase ?iv ?db'] d i e one sample_import_rows
    by metis
qed

subsection \<open>The batches and the rows of a whole file\<close>

lemma chunks_unique:
  assumes "0 < n"
  shows "(\<And>b. b \<in> set bs \<Longrightarrow> length b = n) \<Longrightarrow> length r < n \<Longrightarrow> concat bs @ r = xs \<Longrightarrow>
         bs = map (\<lambda>i. take n (drop (n * i) xs)) [0..<length xs div n] \<and>
         r = drop (n * (length xs div n)) xs"
proof (induction bs arbitrary: xs)
  case Nil
  then have "xs = r" by simp
  then show ?case using Nil.prems(2) by simp
next
  case (Cons b bs)
  define ys where "ys = concat bs @ r"
  have xs: "xs = b @ ys" using Cons.prems(3) by (simp add: ys_def)
  have lb: "length b = n" using Cons.prems(1) by simp
  have ih: "bs = map (\<lambda>i. take n (drop (n * i) ys)) [0..<length ys div n] \<and>
            r = drop (n * (length ys div n)) ys"
    using Cons.IH [of ys] Cons.prems(1,2) by (simp add: ys_def)
  have d: "length xs div n = Suc (length ys div n)"
    using assms lb by (simp add: xs)
  have shift: "take n (drop (n * Suc i) xs) = take n (drop (n * i) ys)" for i
    using lb by (simp add: xs)
  have "map (\<lambda>i. take n (drop (n * i) xs)) [0..<Suc (length ys div n)]
        = take n (drop (n * 0) xs) # map (\<lambda>i. take n (drop (n * i) xs)) (map Suc [0..<length ys div n])"
    by (simp only: map_Suc_upt upt_conv_Cons [of 0 "Suc (length ys div n)"] zero_less_Suc list.map)
  also have "\<dots> = b # map (\<lambda>i. take n (drop (n * i) ys)) [0..<length ys div n]"
    using lb by (simp add: xs comp_def del: upt_Suc)
  finally have m: "map (\<lambda>i. take n (drop (n * i) xs)) [0..<Suc (length ys div n)] = b # bs"
    using ih by simp
  have "drop (n * Suc (length ys div n)) xs = drop (n * (length ys div n)) ys"
    using lb by (simp add: xs)
  then show ?case using m ih d by simp
qed

lemma batching_chunks:
  "batching [] xs
   = (map (\<lambda>i. take 1000 (drop (1000 * i) xs)) [0..<length xs div 1000],
      drop (1000 * (length xs div 1000)) xs)"
proof -
  have "fst (batching [] xs) = map (\<lambda>i. take 1000 (drop (1000 * i) xs)) [0..<length xs div 1000] \<and>
        snd (batching [] xs) = drop (1000 * (length xs div 1000)) xs"
  proof (rule chunks_unique)
    show "(0::nat) < 1000" by simp
    show "length b = 1000" if "b \<in> set (fst (batching [] xs))" for b
      using batching_full [of "[]" b xs] that by simp
    show "length (snd (batching [] xs)) < 1000" by (rule batching_rest_short) simp
    show "concat (fst (batching [] xs)) @ snd (batching [] xs) = xs"
      using batching_concat [of "[]" xs] by simp
  qed
  then show ?thesis by (metis prod.collapse)
qed

lemma onEnd_flushed:
  "flushed (snd (onEnd r st)) = flushed st @ (if records st = [] then [] else [records st])"
  by (cases "insertBatch (records st) (store st)") (simp_all add: onEnd_def Let_def)

lemma ceil_div:
  fixes n j :: nat
  shows "(n + j) div Suc j = n div Suc j + (if n mod Suc j = 0 then 0 else 1)"
proof -
  define q where "q = n div Suc j"
  define m where "m = n mod Suc j"
  have n: "n = Suc j * q + m" unfolding q_def m_def by (rule mult_div_mod_eq [symmetric])
  have mk: "m < Suc j" by (simp add: m_def)
  show ?thesis
  proof (cases "m = 0")
    case True
    have "(n + j) div Suc j = q"
    proof (rule div_nat_eqI)
      show "Suc j * q \<le> n + j" using n by simp
      show "n + j < Suc j * Suc q" using n True by simp
    qed
    then show ?thesis using True by (simp add: q_def [symmetric] m_def [symmetric])
  next
    case False
    have "(n + j) div Suc j = Suc q"
    proof (rule div_nat_eqI)
      show "Suc j * Suc q \<le> n + j" using n False by simp
      show "n + j < Suc j * Suc (Suc q)" using n mk by simp
    qed
    then show ?thesis using False by (simp add: q_def [symmetric] m_def [symmetric])
  qed
qed

lemma all_chunks_gen:
  fixes k j :: nat
  assumes k: "k = Suc j"
  shows "map (\<lambda>i. take k (drop (k * i) xs)) [0..<length xs div k]
     @ (if drop (k * (length xs div k)) xs = [] then []
        else [drop (k * (length xs div k)) xs])
   = map (\<lambda>i. take k (drop (k * i) xs)) [0..<(length xs + j) div k]"
proof -
  have assms: "0 < k" using k by simp
  have cd: "(length xs + j) div k = length xs div k + (if length xs mod k = 0 then 0 else 1)"
    unfolding k by (rule ceil_div)
  have len: "length (drop (k * (length xs div k)) xs) = length xs mod k"
    by (simp add: minus_mult_div_eq_mod)
  show ?thesis
  proof (cases "length xs mod k = 0")
    case True
    then have e: "drop (k * (length xs div k)) xs = []" using len by simp
    show ?thesis using e True by (simp only: cd) simp
  next
    case False
    then have ne: "drop (k * (length xs div k)) xs \<noteq> []" using len by auto
    have "length (drop (k * (length xs div k)) xs) < k" using len assms by simp
    then have "take k (drop (k * (length xs div k)) xs) = drop (k * (length xs div k)) xs"
      by simp
    then show ?thesis using ne False by (simp only: cd) simp
  qed
qed

lemma all_chunks:
  "map (\<lambda>i. take 1000 (drop (1000 * i) xs)) [0..<length xs div 1000]
     @ (if drop (1000 * (length xs div 1000)) xs = [] then []
        else [drop (1000 * (length xs div 1000)) xs])
   = map (\<lambda>i. take 1000 (drop (1000 * i) xs)) [0..<(length xs + 999) div 1000]"
  using all_chunks_gen [of 1000 999 xs] by simp

lemma importCSVFile_flushed:
  assumes "parsed file (detectDelimiter (head_bytes file) (toLowerCase (res_format r))) = (recs, End)"
  shows "flushed (snd (importCSVFile file r db))
         = map (\<lambda>i. take 1000 (drop (1000 * i)
                  (acceptedInvoices (extractYearFromFilename (res_name r)) recs)))
             [0..<(length (acceptedInvoices (extractYearFromFilename (res_name r)) recs) + 999)
                    div 1000]"
  by (simp only: importCSVFile_end [OF assms] onEnd_flushed foldl_onData_new importer.simps
      batching_chunks fst_conv snd_conv all_chunks)

lemma importCSVFile_rows_end:
  assumes "parsed file (detectDelimiter (head_bytes file) (toLowerCase (res_format r))) = (recs, End)"
  shows "invoiceRows (store (snd (importCSVFile file r db)))
         = foldl upsert (invoiceRows db)
             (concat (filter (\<lambda>b. \<not> batchThrows b) (flushed (snd (importCSVFile file r db)))))"
proof -
  define st where
    "st = foldl (onData (extractYearFromFilename (res_name r))) (newImporter db) recs"
  have imp: "importCSVFile file r db = onEnd r st"
    unfolding st_def by (rule importCSVFile_end [OF assms])
  have s: "store st = foldl commitBatch db (flushed st)"
    by (simp add: st_def foldl_onData_new)
  have nt: "\<not> batchThrows []" by (simp add: batchThrows_def)
  show ?thesis
    using nt by (simp add: imp onEnd_rows onEnd_flushed s commitBatches_rows)
qed

lemma upsert_again: "upsert (upsert rows iv) iv = upsert rows iv"
  by (simp add: upsert_def)

lemma upserts_same: "foldl upsert (upsert rows iv) (replicate n iv) = upsert rows iv"
  by (induction n) (simp_all add: upsert_again)

lemma upserts_replicate:
  "0 < n \<Longrightarrow> foldl upsert rows (replicate n iv)
     = filter (\<lambda>row. lasku_id row \<noteq> lasku_id iv) rows @ [iv]"
proof -
  assume "0 < n"
  then obtain m where "n = Suc m" by (cases n) simp_all
  then show ?thesis using upserts_same [of rows iv m] by (simp add: upsert_def)
qed

lemma insertBatch_all_or_nothing:
  "(list_ex violatesNotNull b \<longrightarrow> insertBatch b db = Inl SqliteConstraint) \<and>
   (\<not> list_ex violatesNotNull b \<longrightarrow>
      (\<exists>db'. insertBatch b db = Inr db' \<and> invoiceRows db' = foldl upsert (invoiceRows db) b))"
proof (intro conjI impI)
  assume "list_ex violatesNotNull b"
  then show "insertBatch b db = Inl SqliteConstraint"
    by (simp add: insertBatch_def insertMany_throws)
next
  assume "\<not> list_ex violatesNotNull b"
  then obtain db' where c: "insertMany b db = Inr db'" using insertMany_commits by blast
  then have "invoiceRows db' = foldl upsert (invoiceRows db) b" by (rule insertMany_rows)
  with c show "\<exists>db'. insertBatch b db = Inr db' \<and> invoiceRows db' = foldl upsert (invoiceRows db) b"
    by (simp add: insertBatch_def)
qed

lemma resolved_replaces_ledger_row:
  assumes "importCSVFile f r db = (Resolved n k, st)"
  shows "dataset_metadata (store st)
         = filter (\<lambda>row. resource_id (snd row) \<noteq> res_id r) (dataset_metadata db)
           @ [(Suc (metadata_seq db),
               \<lparr>resource_id = res_id r, resource_name = res_name r, resource_url = res_url r,
                file_format = res_format r,
                ledger_year = extractYearFromFilename (res_name r),
                last_modified = res_last_modified r,
                records_imported = n, status = ''completed''\<rparr>)]"
proof -
  define year where "year = extractYearFromFilename (res_name r)"
  obtain recs ending where
    p: "parsed f (detectDelimiter (head_bytes f) (toLowerCase (res_format r))) = (recs, ending)"
    by (cases "parsed f (detectDelimiter (head_bytes f) (toLowerCase (res_format r)))")
  define st0 where "st0 = foldl (onData year) (newImporter db) recs"
  have led: "dataset_metadata (commitBatch (store st0) (records st0)) = dataset_metadata db"
      "metadata_seq (commitBatch (store st0) (records st0)) = metadata_seq db"
    by (simp_all add: st0_def foldl_onData_new commitBatch_ledger commitBatches_ledger)
  show ?thesis
  proof (cases ending)
    case (ParseError msg)
    then have "importCSVFile f r db = (Rejected msg, st0)"
      using p by (simp add: importCSVFile_error st0_def year_def)
    then show ?thesis using assms by simp
  next
    case End
    then have imp: "importCSVFile f r db = onEnd r st0"
      using p by (simp add: importCSVFile_end st0_def year_def)
    show ?thesis
    proof (cases "batchThrows (records st0)")
      case True
      then show ?thesis using onEnd_uncaught [OF True, of r] assms imp by simp
    next
      case False
      have "fst (onEnd r st0) = Resolved n k" "snd (onEnd r st0) = st"
        using assms imp by simp_all
      then show ?thesis using onEnd_resolved [OF False, of r] led by (simp add: year_def)
    qed
  qed
qed

lemma rejected_keeps_ledger:
  assumes "parsed f (detectDelimiter (head_bytes f) (toLowerCase (res_format r)))
           = (recs, ParseError msg)"
  shows "fst (importCSVFile f r db) = Rejected msg \<and>
         dataset_metadata (store (snd (importCSVFile f r db))) = dataset_metadata db"
  by (simp add: importCSVFile_error [OF assms] foldl_onData_new commitBatches_ledger)

lemma importCSVFile_concat_flushed:
  assumes "parsed file (detectDelimiter (head_bytes file) (toLowerCase (res_format r))) = (recs, End)"
  shows "concat (flushed (snd (importCSVFile file r db)))
         = acceptedInvoices (extractYearFromFilename (res_name r)) recs"
proof -
  let ?acc = "acceptedInvoices (extractYearFromFilename (res_name r)) recs"
  have "concat (fst (batching [] ?acc)) @ snd (batching [] ?acc) = ?acc"
    using batching_concat [of "[]" ?acc] by simp
  then have "concat (fst (batching [] ?acc)
      @ (if snd (batching [] ?acc) = [] then [] else [snd (batching [] ?acc)])) = ?acc"
    by (cases "snd (batching [] ?acc) = []") auto
  then show ?thesis
    by (simp only: importCSVFile_end [OF assms] onEnd_flushed foldl_onData_new importer.simps
        append_Nil)
qed

subsection \<open>Batches of 1000 and a last partial batch\<close>

text \<open>
  Claim C7. One call of \<open>insertBatch\<close> is one transaction, all or nothing: it throws and
  leaves the table as it was when an invoice of the batch violates a constraint, and
  otherwise it applies the insert-or-replace of every invoice of the batch, in order. For
  every file that ends normally, the batches handed to \<open>insertBatch\<close> are the accepted
  invoices cut into consecutive pieces of 1000, the last piece being the partial batch of the
  \<open>end\<close> handler when the count is no multiple of 1000; the rows of the table after the
  import are the rows before it with the batches that do not throw applied. A file with
  exactly 1999 accepted records gives exactly two batches, of 1000 and of 999; when none of its
  invoices violates a constraint, both transactions commit one after the other, all 1999
  invoices are upserted into the table, and the import reports \<open>recordCount = 1999\<close>.
\<close>

theorem flushes_in_batches_of_1000:
  "((list_ex violatesNotNull b \<longrightarrow> insertBatch b db = Inl SqliteConstraint) \<and>
    (\<not> list_ex violatesNotNull b \<longrightarrow>
       (\<exists>db'. insertBatch b db = Inr db' \<and> invoiceRows db' = foldl upsert (invoiceRows db) b))) \<and>
   (parsed f (detectDelimiter (head_bytes f) (toLowerCase (res_format r))) = (recs, End) \<longrightarrow>
      flushed (snd (importCSVFile f r db))
        = map (\<lambda>i. take 1000 (drop (1000 * i)
                 (acceptedInvoices (extractYearFromFilename (res_name r)) recs)))
            [0..<(length (acceptedInvoices (extractYearFromFilename (res_name r)) recs) + 999)
                   div 1000] \<and>
      invoiceRows (store (snd (importCSVFile f r db)))
        = foldl upsert (invoiceRows db)
            (concat (filter (\<lambda>b. \<not> list_ex violatesNotNull b)
               (flushed (snd (importCSVFile f r db)))))) \<and>
   (parsed f (detectDelimiter (head_bytes f) (toLowerCase (res_format r))) = (recs, End) \<and>
    length (acceptedInvoices (extractYearFromFilename (res_name r)) recs) = 1999 \<longrightarrow>
      flushed (snd (importCSVFile f r db))
        = [take 1000 (acceptedInvoices (extractYearFromFilename (res_name r)) recs),
           drop 1000 (acceptedInvoices (extractYearFromFilename (res_name r)) recs)] \<and>
      map length (flushed (snd (importCSVFile f r db))) = [1000, 999] \<and>
      (\<not> list_ex violatesNotNull (acceptedInvoices (extractYearFromFilename (res_name r)) recs) \<longrightarrow>
         fst (importCSVFile f r db)
           = Resolved 1999 (rejectedCount (extractYearFromFilename (res_name r)) recs) \<and>
         (\<exists>db1 db2.
            insertBatch (take 1000 (acceptedInvoices (extractYearFromFilename (res_name r)) recs)) db
              = Inr db1 \<and>
            insertBatch (drop 1000 (acceptedInvoices (extractYearFromFilename (res_name r)) recs)) db1
              = Inr db2 \<and>
            store (snd (importCSVFile f r db)) = updateMetadata r 1999 db2) \<and>
         invoiceRows (store (snd (importCSVFile f r db)))
           = foldl upsert (invoiceRows db)
               (acceptedInvoices (extractYearFromFilename (res_name r)) recs)))"
proof (intro conjI impI)
  show "insertBatch b db = Inl SqliteConstraint" if "list_ex violatesNotNull b"
    using that insertBatch_all_or_nothing by blast
  show "\<exists>db'. insertBatch b db = Inr db' \<and> invoiceRows db' = foldl upsert (invoiceRows db) b"
    if "\<not> list_ex violatesNotNull b"
    using that insertBatch_all_or_nothing by blast
next
  assume p: "parsed f (detectDelimiter (head_bytes f) (toLowerCase (res_format r))) = (recs, End)"
  show "flushed (snd (importCSVFile f r db))
        = map (\<lambda>i. take 1000 (drop (1000 * i)
                 (acceptedInvoices (extractYearFromFilename (res_name r)) recs)))
            [0..<(length (acceptedInvoices (extractYearFromFilename (res_name r)) recs) + 999)
                   div 1000]"
    by (rule importCSVFile_flushed [OF p])
  show "invoiceRows (store (snd (importCSVFile f r db)))
        = foldl upsert (invoiceRows db)
            (concat (filter (\<lambda>b. \<not> list_ex violatesNotNull b)
               (flushed (snd (importCSVFile f r db)))))"
    using importCSVFile_rows_end [OF p, of db] by (simp only: batchThrows_def)
next
  assume a: "parsed f (detectDelimiter (head_bytes f) (toLowerCase (res_format r))) = (recs, End) \<and>
    length (acceptedInvoices (extractYearFromFilename (res_name r)) recs) = 1999"
  define year where "year = extractYearFromFilename (res_name r)"
  define acc where "acc = acceptedInvoices year recs"
  have p: "parsed f (detectDelimiter (head_bytes f) (toLowerCase (res_format r))) = (recs, End)"
    using a by simp
  have len: "length acc = 1999" using a by (simp add: acc_def year_def)
  have bat: "batching [] acc = ([take 1000 acc], drop 1000 acc)"
    using batching_one [of "[]" acc] len by simp
  define st where "st = foldl (onData year) (newImporter db) recs"
  have st: "st = \<lparr>records = drop 1000 acc, recordCount = 1999,
      errorCount = rejectedCount year recs + length (filter batchThrows [take 1000 acc]),
      flushed = [take 1000 acc], store = commitBatch db (take 1000 acc)\<rparr>"
    unfolding st_def foldl_onData_new acc_def [symmetric] bat using len by simp
  have imp: "importCSVFile f r db = onEnd r st"
    unfolding st_def year_def by (rule importCSVFile_end [OF p])
  have ne: "drop 1000 acc \<noteq> []" using len by simp
  have fl: "flushed (snd (onEnd r st)) = [take 1000 acc, drop 1000 acc]"
    using ne by (simp add: onEnd_flushed st)
  have lens: "map length [take 1000 acc, drop 1000 acc] = [1000, 999]"
    using len by simp
  show "flushed (snd (importCSVFile f r db))
        = [take 1000 (acceptedInvoices (extractYearFromFilename (res_name r)) recs),
           drop 1000 (acceptedInvoices (extractYearFromFilename (res_name r)) recs)]"
    using fl unfolding imp acc_def year_def .
  show "map length (flushed (snd (importCSVFile f r db))) = [1000, 999]"
    using fl lens unfolding imp by simp
  assume nv0: "\<not> list_ex violatesNotNull (acceptedInvoices (extractYearFromFilename (res_name r)) recs)"
  then have nv: "\<not> list_ex violatesNotNull acc" by (simp add: acc_def year_def)
  have n1: "\<not> batchThrows (take 1000 acc)"
    using nv by (auto simp: batchThrows_def list_ex_iff dest: in_set_takeD)
  have n2: "\<not> batchThrows (drop 1000 acc)"
    using nv by (auto simp: batchThrows_def list_ex_iff dest: in_set_dropD)
  have c1: "insertBatch (take 1000 acc) db = Inr (commitBatch db (take 1000 acc))"
    using n1 by (rule commitBatch_commits)
  have c2: "insertBatch (drop 1000 acc) (commitBatch db (take 1000 acc))
            = Inr (commitBatch (commitBatch db (take 1000 acc)) (drop 1000 acc))"
    using n2 by (rule commitBatch_commits)
  have res: "fst (onEnd r st) = Resolved 1999 (rejectedCount year recs)"
    using ne n1 c2 by (simp add: onEnd_def st Let_def)
  have sto: "store (snd (onEnd r st))
      = updateMetadata r 1999 (commitBatch (commitBatch db (take 1000 acc)) (drop 1000 acc))"
    using ne c2 by (simp add: onEnd_def st Let_def)
  show "fst (importCSVFile f r db)
           = Resolved 1999 (rejectedCount (extractYearFromFilename (res_name r)) recs)"
    using res unfolding imp year_def .
  show "\<exists>db1 db2.
            insertBatch (take 1000 (acceptedInvoices (extractYearFromFilename (res_name r)) recs)) db
              = Inr db1 \<and>
            insertBatch (drop 1000 (acceptedInvoices (extractYearFromFilename (res_name r)) recs)) db1
              = Inr db2 \<and>
            store (snd (importCSVFile f r db)) = updateMetadata r 1999 db2"
    using c1 c2 sto unfolding imp acc_def year_def by blast
  have "invoiceRows (store (snd (importCSVFile f r db)))
        = foldl upsert (invoiceRows db) (concat (filter (\<lambda>b. \<not> batchThrows b)
            [take 1000 acc, drop 1000 acc]))"
    using importCSVFile_rows_end [OF p, of db] fl unfolding imp by simp
  also have "\<dots> = foldl upsert (invoiceRows db) acc"
    using n1 n2 by simp
  finally show "invoiceRows (store (snd (importCSVFile f r db)))
           = foldl upsert (invoiceRows db)
               (acceptedInvoices (extractYearFromFilename (res_name r)) recs)"
    unfolding acc_def year_def .
qed

text \<open>
  The theorem at a file of 1999 complete records imported into an empty database, at a file
  of 3500 records imported next to a row of another identifier, once with a year in the file
  name and once without, where every batch throws and the table stays as it was, and at a
  batch of two invoices of which the second violates a constraint.
\<close>

theorem flushes_in_batches_of_1000_witness:
  "map length (flushed (snd (importCSVFile (sampleFile 1999) sampleResource emptyDatabase)))
     = [1000, 999] \<and>
   fst (importCSVFile (sampleFile 1999) sampleResource emptyDatabase) = Resolved 1999 0 \<and>
   invoiceRows (store (snd (importCSVFile (sampleFile 1999) sampleResource emptyDatabase)))
     = [toInvoice (Some 2024) sampleRecord] \<and>
   map length (flushed (snd (importCSVFile (sampleFile 3500) sampleResource oldDatabase)))
     = [1000, 1000, 1000, 500] \<and>
   map lasku_id (invoiceRows (store (snd (importCSVFile (sampleFile 3500) sampleResource
     oldDatabase)))) = [''B7'', ''A1''] \<and>
   map lasku_id (invoiceRows (store (snd (importCSVFile (sampleFile 3500) undatedResource
     oldDatabase)))) = [''B7''] \<and>
   insertBatch [toInvoice (Some 2024) sampleRecord, toInvoice None sampleRecord] oldDatabase
     = Inl SqliteConstraint"
proof -
  let ?iv = "toInvoice (Some 2024) sampleRecord"
  let ?y = "extractYearFromFilename (res_name sampleResource)"
  have p: "parsed (sampleFile n)
      (detectDelimiter (head_bytes (sampleFile n)) (toLowerCase (res_format sampleResource)))
      = (replicate n sampleRecord, End)" for n
    by (rule sample_parsed)
  have pu: "parsed (sampleFile n)
      (detectDelimiter (head_bytes (sampleFile n)) (toLowerCase (res_format undatedResource)))
      = (replicate n sampleRecord, End)" for n
    by (rule sample_parsed)
  have n: "length (acceptedInvoices ?y (replicate 1999 sampleRecord)) = 1999"
    by (simp add: sample_accepted)
  have nvi: "\<not> violatesNotNull ?iv" by (simp add: violatesNotNull_def sample_invoice)
  have v: "\<not> list_ex violatesNotNull (acceptedInvoices ?y (replicate 1999 sampleRecord))"
    using nvi by (simp add: sample_accepted sample_year list_ex_iff)
  have r: "rejectedCount ?y (replicate 1999 sampleRecord) = 0"
    by (rule sample_rejected)
  note t1999 = flushes_in_batches_of_1000
    [where f = "sampleFile 1999" and r = sampleResource and recs = "replicate 1999 sampleRecord"
       and db = emptyDatabase]
  have a1: "map length (flushed (snd (importCSVFile (sampleFile 1999) sampleResource emptyDatabase)))
     = [1000, 999]"
    using t1999 p n by blast
  have a2: "fst (importCSVFile (sampleFile 1999) sampleResource emptyDatabase) = Resolved 1999 0"
    using t1999 p n v r by metis
  have "invoiceRows (store (snd (importCSVFile (sampleFile 1999) sampleResource emptyDatabase)))
     = foldl upsert (invoiceRows emptyDatabase) (acceptedInvoices ?y (replicate 1999 sampleRecord))"
    using t1999 p n v by blast
  then have a3: "invoiceRows (store (snd (importCSVFile (sampleFile 1999) sampleResource
      emptyDatabase))) = [?iv]"
    by (simp add: sample_accepted sample_year upserts_replicate invoiceRows_def emptyDatabase_def)
  note t3500 = flushes_in_batches_of_1000
    [where f = "sampleFile 3500" and r = sampleResource and recs = "replicate 3500 sampleRecord"
       and db = oldDatabase]
  have up: "[0..<4] = [0, 1, 2, 3::nat]"
    by (simp add: upt_rec)
  have f3500: "flushed (snd (importCSVFile (sampleFile 3500) sampleResource oldDatabase))
      = [replicate 1000 ?iv, replicate 1000 ?iv, replicate 1000 ?iv, replicate 500 ?iv]"
    using t3500 p [of 3500] by (simp add: sample_accepted sample_year up)
  then have b1: "map length (flushed (snd (importCSVFile (sampleFile 3500) sampleResource
      oldDatabase))) = [1000, 1000, 1000, 500]"
    by simp
  have nt: "\<not> list_ex violatesNotNull (replicate k ?iv)" for k
    using nvi by (simp add: list_ex_iff)
  have "invoiceRows (store (snd (importCSVFile (sampleFile 3500) sampleResource oldDatabase)))
      = foldl upsert (invoiceRows oldDatabase)
          (concat (filter (\<lambda>b. \<not> list_ex violatesNotNull b)
             [replicate 1000 ?iv, replicate 1000 ?iv, replicate 1000 ?iv, replicate 500 ?iv]))"
    using t3500 p [of 3500] f3500 by metis
  also have "\<dots> = foldl upsert (invoiceRows oldDatabase) (replicate 3500 ?iv)"
    by (simp add: nt replicate_add [symmetric])
  also have "\<dots> = filter (\<lambda>row. lasku_id row \<noteq> lasku_id ?iv) (invoiceRows oldDatabase) @ [?iv]"
    by (rule upserts_replicate) simp
  finally have b2: "map lasku_id (invoiceRows (store (snd (importCSVFile (sampleFile 3500)
      sampleResource oldDatabase)))) = [''B7'', ''A1'']"
    by (simp add: invoiceRows_def oldDatabase_def sample_invoice)
  note u3500 = flushes_in_batches_of_1000
    [where f = "sampleFile 3500" and r = undatedResource and recs = "replicate 3500 sampleRecord"
       and db = oldDatabase]
  have fu: "flushed (snd (importCSVFile (sampleFile 3500) undatedResource oldDatabase))
      = [replicate 1000 (toInvoice None sampleRecord), replicate 1000 (toInvoice None sampleRecord),
         replicate 1000 (toInvoice None sampleRecord), replicate 500 (toInvoice None sampleRecord)]"
    using u3500 pu [of 3500] by (simp add: sample_accepted sample_undated_year up)
  have th: "list_ex violatesNotNull (replicate k (toInvoice None sampleRecord))" if "0 < k" for k
    using that by (simp add: list_ex_iff undated_invoice_violates)
  have "invoiceRows (store (snd (importCSVFile (sampleFile 3500) undatedResource oldDatabase)))
      = foldl upsert (invoiceRows oldDatabase)
          (concat (filter (\<lambda>b. \<not> list_ex violatesNotNull b)
             [replicate 1000 (toInvoice None sampleRecord), replicate 1000 (toInvoice None sampleRecord),
              replicate 1000 (toInvoice None sampleRecord), replicate 500 (toInvoice None sampleRecord)]))"
    using u3500 pu [of 3500] fu by metis
  also have "\<dots> = invoiceRows oldDatabase" by (simp add: th)
  finally have b3: "map lasku_id (invoiceRows (store (snd (importCSVFile (sampleFile 3500)
      undatedResource oldDatabase)))) = [''B7'']"
    by (simp add: invoiceRows_def oldDatabase_def)
  have "list_ex violatesNotNull [?iv, toInvoice None sampleRecord]"
    by (simp add: undated_invoice_violates)
  then have c: "insertBatch [?iv, toInvoice None sampleRecord] oldDatabase = Inl SqliteConstraint"
    using flushes_in_batches_of_1000
      [where b = "[?iv, toInvoice None sampleRecord]" and db = oldDatabase] by blast
  show ?thesis using a1 a2 a3 b1 b2 b3 c by blast
qed

subsection \<open>A batch that throws in the middle of a file\<close>

lemma mixed_parsed: "parsed (mixedFile ending) d = (badAmountRecord # replicate 1000 sampleRecord, ending)"
  by (simp add: mixedFile_def)

lemma bad_accepted: "\<not> missingRequired (toInvoice year badAmountRecord)"
  by (simp add: bad_invoice sample_invoice missingRequired_def)

lemma bad_violates: "violatesNotNull (toInvoice year badAmountRecord)"
  by (simp add: bad_invoice violatesNotNull_def)

lemma mixed_accepted:
  "acceptedInvoices year (badAmountRecord # replicate 1000 sampleRecord)
   = toInvoice year badAmountRecord # replicate 1000 (toInvoice year sampleRecord)"
  using sample_accepted [of year 1000] by (simp add: acceptedInvoices_def bad_accepted)

lemma mixed_rejected: "rejectedCount year (badAmountRecord # replicate 1000 sampleRecord) = 0"
  using sample_rejected [of year 1000] by (simp add: rejectedCount_def bad_accepted)

lemma mixed_batching:
  "batching [] (toInvoice year badAmountRecord # replicate 1000 (toInvoice year sampleRecord))
   = ([toInvoice year badAmountRecord # replicate 999 (toInvoice year sampleRecord)],
      [toInvoice year sampleRecord])"
  using batching_one
    [of "[]" "toInvoice year badAmountRecord # replicate 1000 (toInvoice year sampleRecord)"]
  by simp

lemma mixed_state:
  "foldl (onData (Some 2024)) (newImporter db) (badAmountRecord # replicate 1000 sampleRecord)
   = \<lparr>records = [toInvoice (Some 2024) sampleRecord], recordCount = 1001, errorCount = 1,
      flushed = [toInvoice (Some 2024) badAmountRecord
                 # replicate 999 (toInvoice (Some 2024) sampleRecord)],
      store = db\<rparr>"
proof -
  have thr: "batchThrows (toInvoice (Some 2024) badAmountRecord
      # replicate 999 (toInvoice (Some 2024) sampleRecord))"
    by (simp add: batchThrows_def bad_violates)
  show ?thesis
    by (simp only: foldl_onData_new mixed_accepted mixed_rejected mixed_batching fst_conv snd_conv)
      (simp add: thr commitBatch_throws)
qed

text \<open>
  Claim C10, as amended. When the upsert of a batch of 1000 throws in the \<open>data\<close> handler,
  the exception is caught there and counted as one error: the 1000 invoices have left the
  buffer, they are not stored and not handed to storage again, and they stay counted in
  \<open>recordCount\<close>; the database is as before the batch, and the records that follow are
  processed from that state. If the stream then ends normally and the flush of the last,
  partial batch does not throw, the import resolves with the number of all accepted records,
  those of the dropped batches among them; the ledger row of the resource is replaced by a
  row with the status \<open>completed\<close> and that number as \<open>records_imported\<close>, the other
  ledger rows staying as they are; every accepted invoice has been in exactly one batch, and
  the table holds the rows of before with the batches that did not throw applied. If the
  stream ends with a parse error instead, the import is rejected with its message and the
  ledger is not written.
\<close>

theorem failed_batch_is_counted_once_and_dropped:
  "(\<not> missingRequired (toInvoice year rec) \<and> length (records st) = 999 \<and>
    insertBatch (records st @ [toInvoice year rec]) (store st) = Inl e \<longrightarrow>
      onData year st rec
        = st\<lparr>records := [], recordCount := recordCount st + 1,
             errorCount := errorCount st + 1,
             flushed := flushed st @ [records st @ [toInvoice year rec]]\<rparr> \<and>
      foldl (onData year) st (rec # rest)
        = foldl (onData year)
            (st\<lparr>records := [], recordCount := recordCount st + 1,
                errorCount := errorCount st + 1,
                flushed := flushed st @ [records st @ [toInvoice year rec]]\<rparr>) rest) \<and>
   (parsed f (detectDelimiter (head_bytes f) (toLowerCase (res_format r))) = (recs, End) \<and>
    \<not> batchThrows
        (records (foldl (onData (extractYearFromFilename (res_name r))) (newImporter db) recs)) \<longrightarrow>
      fst (importCSVFile f r db)
        = Resolved (length (acceptedInvoices (extractYearFromFilename (res_name r)) recs))
            (rejectedCount (extractYearFromFilename (res_name r)) recs
             + length (filter batchThrows
                 (fst (batching [] (acceptedInvoices (extractYearFromFilename (res_name r)) recs))))) \<and>
      snd (last (dataset_metadata (store (snd (importCSVFile f r db)))))
        = \<lparr>resource_id = res_id r, resource_name = res_name r, resource_url = res_url r,
           file_format = res_format r,
           ledger_year = extractYearFromFilename (res_name r),
           last_modified = res_last_modified r,
           records_imported = length (acceptedInvoices (extractYearFromFilename (res_name r)) recs),
           status = ''completed''\<rparr> \<and>
      dataset_metadata (store (snd (importCSVFile f r db)))
        = filter (\<lambda>row. resource_id (snd row) \<noteq> res_id r) (dataset_metadata db)
          @ [(Suc (metadata_seq db),
              \<lparr>resource_id = res_id r, resource_name = res_name r, resource_url = res_url r,
               file_format = res_format r,
               ledger_year = extractYearFromFilename (res_name r),
               last_modified = res_last_modified r,
               records_imported =
                 length (acceptedInvoices (extractYearFromFilename (res_name r)) recs),
               status = ''completed''\<rparr>)] \<and>
      concat (flushed (snd (importCSVFile f r db)))
        = acceptedInvoices (extractYearFromFilename (res_name r)) recs \<and>
      invoiceRows (store (snd (importCSVFile f r db)))
        = foldl upsert (invoiceRows db)
            (concat (filter (\<lambda>b. \<not> list_ex violatesNotNull b)
               (flushed (snd (importCSVFile f r db)))))) \<and>
   (parsed f (detectDelimiter (head_bytes f) (toLowerCase (res_format r)))
      = (recs, ParseError msg) \<longrightarrow>
      fst (importCSVFile f r db) = Rejected msg \<and>
      dataset_metadata (store (snd (importCSVFile f r db))) = dataset_metadata db)"
proof (intro conjI impI)
  assume a: "\<not> missingRequired (toInvoice year rec) \<and> length (records st) = 999 \<and>
    insertBatch (records st @ [toInvoice year rec]) (store st) = Inl e"
  then have thr: "batchThrows (records st @ [toInvoice year rec])"
    using insertBatch_throws_iff by blast
  have ge: "999 \<le> length (records st)" using a by simp
  have nm: "\<not> missingRequired (toInvoice year rec)" using a by simp
  show step: "onData year st rec
        = st\<lparr>records := [], recordCount := recordCount st + 1,
             errorCount := errorCount st + 1,
             flushed := flushed st @ [records st @ [toInvoice year rec]]\<rparr>"
    using a thr by (simp add: onData_flush [OF nm ge] commitBatch_throws)
  show "foldl (onData year) st (rec # rest)
        = foldl (onData year)
            (st\<lparr>records := [], recordCount := recordCount st + 1,
                errorCount := errorCount st + 1,
                flushed := flushed st @ [records st @ [toInvoice year rec]]\<rparr>) rest"
    by (simp only: foldl_Cons step)
next
  assume b: "parsed f (detectDelimiter (head_bytes f) (toLowerCase (res_format r))) = (recs, End) \<and>
    \<not> batchThrows
        (records (foldl (onData (extractYearFromFilename (res_name r))) (newImporter db) recs))"
  then have p: "parsed f (detectDelimiter (head_bytes f) (toLowerCase (res_format r))) = (recs, End)"
    by simp
  define st where "st = foldl (onData (extractYearFromFilename (res_name r))) (newImporter db) recs"
  have imp: "importCSVFile f r db = onEnd r st"
    unfolding st_def using b by (simp add: importCSVFile_end)
  have nt: "\<not> batchThrows (records st)" using b by (simp add: st_def)
  have rc: "recordCount st = length (acceptedInvoices (extractYearFromFilename (res_name r)) recs)"
    by (simp add: st_def foldl_onData_new)
  have ec: "errorCount st = rejectedCount (extractYearFromFilename (res_name r)) recs
             + length (filter batchThrows
                 (fst (batching [] (acceptedInvoices (extractYearFromFilename (res_name r)) recs))))"
    by (simp add: st_def foldl_onData_new)
  show res: "fst (importCSVFile f r db)
        = Resolved (length (acceptedInvoices (extractYearFromFilename (res_name r)) recs))
            (rejectedCount (extractYearFromFilename (res_name r)) recs
             + length (filter batchThrows
                 (fst (batching [] (acceptedInvoices (extractYearFromFilename (res_name r)) recs)))))"
    using onEnd_resolved [OF nt, of r] by (simp add: imp rc ec)
  show "snd (last (dataset_metadata (store (snd (importCSVFile f r db)))))
        = \<lparr>resource_id = res_id r, resource_name = res_name r, resource_url = res_url r,
           file_format = res_format r,
           ledger_year = extractYearFromFilename (res_name r),
           last_modified = res_last_modified r,
           records_imported = length (acceptedInvoices (extractYearFromFilename (res_name r)) recs),
           status = ''completed''\<rparr>"
    using onEnd_resolved [OF nt, of r] by (simp add: imp rc)
  have "importCSVFile f r db
      = (Resolved (length (acceptedInvoices (extractYearFromFilename (res_name r)) recs))
            (rejectedCount (extractYearFromFilename (res_name r)) recs
             + length (filter batchThrows
                 (fst (batching [] (acceptedInvoices (extractYearFromFilename (res_name r)) recs))))),
         snd (importCSVFile f r db))"
    using res by (metis prod.collapse)
  then show "dataset_metadata (store (snd (importCSVFile f r db)))
        = filter (\<lambda>row. resource_id (snd row) \<noteq> res_id r) (dataset_metadata db)
          @ [(Suc (metadata_seq db),
              \<lparr>resource_id = res_id r, resource_name = res_name r, resource_url = res_url r,
               file_format = res_format r,
               ledger_year = extractYearFromFilename (res_name r),
               last_modified = res_last_modified r,
               records_imported =
                 length (acceptedInvoices (extractYearFromFilename (res_name r)) recs),
               status = ''completed''\<rparr>)]"
    by (rule resolved_replaces_ledger_row)
  show "concat (flushed (snd (importCSVFile f r db)))
        = acceptedInvoices (extractYearFromFilename (res_name r)) recs"
    by (rule importCSVFile_concat_flushed [OF p])
  show "invoiceRows (store (snd (importCSVFile f r db)))
        = foldl upsert (invoiceRows db)
            (concat (filter (\<lambda>b. \<not> list_ex violatesNotNull b)
               (flushed (snd (importCSVFile f r db)))))"
    using importCSVFile_rows_end [OF p, of db] by (simp only: batchThrows_def)
next
  assume c: "parsed f (detectDelimiter (head_bytes f) (toLowerCase (res_format r)))
      = (recs, ParseError msg)"
  show "fst (importCSVFile f r db) = Rejected msg"
    using rejected_keeps_ledger [OF c] by blast
  show "dataset_metadata (store (snd (importCSVFile f r db))) = dataset_metadata db"
    using rejected_keeps_ledger [OF c] by blast
qed

text \<open>
  The theorem at a file of 1001 records of the year 2024 whose first record has an amount that
  is no number: the batch of the first 1000 throws at the thousandth record and is caught,
  the record after it is buffered, and at the normal end its batch of one commits; the import
  resolves with 1001 records and one error, the ledger gets the row of the resource with 1001
  records next to the row it had, and the table gets the one invoice next to the row it had.
  When the same stream ends with a parse error, the import is rejected and the ledger is as
  before.
\<close>

theorem failed_batch_is_counted_once_and_dropped_witness:
  "foldl (onData (Some 2024))
     \<lparr>records = toInvoice (Some 2024) badAmountRecord
                # replicate 998 (toInvoice (Some 2024) sampleRecord),
      recordCount = 999, errorCount = 0, flushed = [], store = oldDatabase\<rparr>
     [sampleRecord, sampleRecord]
     = \<lparr>records = [toInvoice (Some 2024) sampleRecord], recordCount = 1001, errorCount = 1,
        flushed = [(toInvoice (Some 2024) badAmountRecord
                    # replicate 998 (toInvoice (Some 2024) sampleRecord))
                   @ [toInvoice (Some 2024) sampleRecord]],
        store = oldDatabase\<rparr> \<and>
   fst (importCSVFile (mixedFile End) sampleResource oldDatabase) = Resolved 1001 1 \<and>
   map length (flushed (snd (importCSVFile (mixedFile End) sampleResource oldDatabase)))
     = [1000, 1] \<and>
   map (\<lambda>row. (fst row, resource_id (snd row), records_imported (snd row), status (snd row)))
     (dataset_metadata (store (snd (importCSVFile (mixedFile End) sampleResource oldDatabase))))
     = [(1, ''r-2023'', 1, ''completed''), (2, ''r-2024'', 1001, ''completed'')] \<and>
   map lasku_id (invoiceRows (store (snd (importCSVFile (mixedFile End) sampleResource
     oldDatabase)))) = [''B7'', ''A1''] \<and>
   fst (importCSVFile (mixedFile (ParseError ''boom'')) sampleResource oldDatabase)
     = Rejected ''boom'' \<and>
   map (\<lambda>row. (fst row, resource_id (snd row), records_imported (snd row)))
     (dataset_metadata (store (snd (importCSVFile (mixedFile (ParseError ''boom''))
        sampleResource oldDatabase))))
     = [(1, ''r-2023'', 1)]"
proof -
  let ?iv = "toInvoice (Some 2024) sampleRecord"
  let ?bad = "toInvoice (Some 2024) badAmountRecord"
  let ?st = "\<lparr>records = ?bad # replicate 998 ?iv, recordCount = 999, errorCount = 0,
      flushed = [], store = oldDatabase\<rparr>"
  let ?y = "extractYearFromFilename (res_name sampleResource)"
  have a1: "\<not> missingRequired ?iv" by (rule sample_accepted_one)
  have a2: "length (records ?st) = 999" by simp
  have a3: "insertBatch (records ?st @ [?iv]) (store ?st) = Inl SqliteConstraint"
    unfolding insertBatch_def by (rule insertMany_throws) (simp add: bad_violates)
  have partA: "foldl (onData (Some 2024)) ?st (sampleRecord # [sampleRecord])
      = foldl (onData (Some 2024))
          (?st\<lparr>records := [], recordCount := recordCount ?st + 1,
               errorCount := errorCount ?st + 1,
               flushed := flushed ?st @ [records ?st @ [?iv]]\<rparr>) [sampleRecord]"
    using failed_batch_is_counted_once_and_dropped
      [where year = "Some 2024" and rec = sampleRecord and st = ?st and e = SqliteConstraint
         and rest = "[sampleRecord]"] a1 a2 a3
    by blast
  have next_one: "foldl (onData (Some 2024))
          (?st\<lparr>records := [], recordCount := recordCount ?st + 1,
               errorCount := errorCount ?st + 1,
               flushed := flushed ?st @ [records ?st @ [?iv]]\<rparr>) [sampleRecord]
      = \<lparr>records = [?iv], recordCount = 1001, errorCount = 1,
         flushed = [(?bad # replicate 998 ?iv) @ [?iv]], store = oldDatabase\<rparr>"
    by (simp add: onData_buffered [OF a1])
  have w1: "foldl (onData (Some 2024)) ?st [sampleRecord, sampleRecord]
      = \<lparr>records = [?iv], recordCount = 1001, errorCount = 1,
         flushed = [(?bad # replicate 998 ?iv) @ [?iv]], store = oldDatabase\<rparr>"
    using partA next_one by simp
  have pe: "parsed (mixedFile End)
      (detectDelimiter (head_bytes (mixedFile End)) (toLowerCase (res_format sampleResource)))
      = (badAmountRecord # replicate 1000 sampleRecord, End)"
    by (rule mixed_parsed)
  have nvi: "\<not> violatesNotNull ?iv" by (simp add: violatesNotNull_def sample_invoice)
  have hb: "\<not> batchThrows (records (foldl (onData ?y) (newImporter oldDatabase)
      (badAmountRecord # replicate 1000 sampleRecord)))"
    by (simp only: sample_year mixed_state) (simp add: batchThrows_def nvi)
  note tB = failed_batch_is_counted_once_and_dropped
      [where f = "mixedFile End" and r = sampleResource
         and recs = "badAmountRecord # replicate 1000 sampleRecord" and db = oldDatabase]
  have thr: "batchThrows (?bad # replicate 999 ?iv)"
    by (simp add: batchThrows_def bad_violates)
  have "fst (importCSVFile (mixedFile End) sampleResource oldDatabase)
        = Resolved (length (acceptedInvoices ?y (badAmountRecord # replicate 1000 sampleRecord)))
            (rejectedCount ?y (badAmountRecord # replicate 1000 sampleRecord)
             + length (filter batchThrows
                 (fst (batching [] (acceptedInvoices ?y
                    (badAmountRecord # replicate 1000 sampleRecord))))))"
    using tB pe hb by blast
  then have w2: "fst (importCSVFile (mixedFile End) sampleResource oldDatabase) = Resolved 1001 1"
    by (simp only: sample_year mixed_accepted mixed_rejected mixed_batching fst_conv)
      (simp add: thr)
  have fl: "flushed (snd (importCSVFile (mixedFile End) sampleResource oldDatabase))
      = [?bad # replicate 999 ?iv, [?iv]]"
    by (simp only: importCSVFile_end [OF pe] onEnd_flushed sample_year mixed_state) simp
  then have w3: "map length (flushed (snd (importCSVFile (mixedFile End) sampleResource
      oldDatabase))) = [1000, 1]"
    by simp
  have "dataset_metadata (store (snd (importCSVFile (mixedFile End) sampleResource oldDatabase)))
        = filter (\<lambda>row. resource_id (snd row) \<noteq> res_id sampleResource)
            (dataset_metadata oldDatabase)
          @ [(Suc (metadata_seq oldDatabase),
              \<lparr>resource_id = res_id sampleResource, resource_name = res_name sampleResource,
               resource_url = res_url sampleResource, file_format = res_format sampleResource,
               ledger_year = ?y, last_modified = res_last_modified sampleResource,
               records_imported =
                 length (acceptedInvoices ?y (badAmountRecord # replicate 1000 sampleRecord)),
               status = ''completed''\<rparr>)]"
    using tB pe hb by blast
  then have w4: "map (\<lambda>row. (fst row, resource_id (snd row), records_imported (snd row),
        status (snd row)))
      (dataset_metadata (store (snd (importCSVFile (mixedFile End) sampleResource oldDatabase))))
      = [(1, ''r-2023'', 1, ''completed''), (2, ''r-2024'', 1001, ''completed'')]"
    by (simp add: sample_year mixed_accepted oldDatabase_def sampleResource_def)
  have "invoiceRows (store (snd (importCSVFile (mixedFile End) sampleResource oldDatabase)))
        = foldl upsert (invoiceRows oldDatabase)
            (concat (filter (\<lambda>b. \<not> list_ex violatesNotNull b)
               (flushed (snd (importCSVFile (mixedFile End) sampleResource oldDatabase)))))"
    using tB pe hb by blast
  then have "invoiceRows (store (snd (importCSVFile (mixedFile End) sampleResource oldDatabase)))
        = foldl upsert (invoiceRows oldDatabase)
            (concat (filter (\<lambda>b. \<not> list_ex violatesNotNull b) [?bad # replicate 999 ?iv, [?iv]]))"
    by (simp only: fl)
  also have "\<dots> = foldl upsert (invoiceRows oldDatabase) [?iv]"
    by (simp add: bad_violates nvi)
  finally have rows: "invoiceRows (store (snd (importCSVFile (mixedFile End) sampleResource
      oldDatabase))) = upsert (invoiceRows oldDatabase) ?iv"
    by simp
  have w5: "map lasku_id (invoiceRows (store (snd (importCSVFile (mixedFile End)
      sampleResource oldDatabase)))) = [''B7'', ''A1'']"
    by (simp only: rows) (simp add: upsert_def invoiceRows_def oldDatabase_def sample_invoice)
  have pp: "parsed (mixedFile (ParseError ''boom''))
      (detectDelimiter (head_bytes (mixedFile (ParseError ''boom'')))
         (toLowerCase (res_format sampleResource)))
      = (badAmountRecord # replicate 1000 sampleRecord, ParseError ''boom'')"
    by (rule mixed_parsed)
  note tC = failed_batch_is_counted_once_and_dropped
      [where f = "mixedFile (ParseError ''boom'')" and r = sampleResource
         and recs = "badAmountRecord # replicate 1000 sampleRecord" and db = oldDatabase
         and msg = "''boom''"]
  have w6: "fst (importCSVFile (mixedFile (ParseError ''boom'')) sampleResource oldDatabase)
      = Rejected ''boom''"
    using tC pp by blast
  have "dataset_metadata (store (snd (importCSVFile (mixedFile (ParseError ''boom''))
      sampleResource oldDatabase))) = dataset_metadata oldDatabase"
    using tC pp by blast
  then have w7: "map (\<lambda>row. (fst row, resource_id (snd row), records_imported (snd row)))
      (dataset_metadata (store (snd (importCSVFile (mixedFile (ParseError ''boom''))
        sampleResource oldDatabase)))) = [(1, ''r-2023'', 1)]"
    by (simp add: oldDatabase_def)
  show ?thesis using w1 w2 w3 w4 w5 w6 w7 by blast
qed

text \<open>
  The claim without the provisos fails. In a file of 1001 complete records whose name has no
  year the batch of 1000 throws and is caught, the batch of the one record left throws in
  the \<open>end\<close> handler, where nothing catches it, and no ledger row is written. In the file of
  the year 2024 whose first batch throws, a parse error after the last record rejects the
  import, and no ledger row is written either.
\<close>

theorem final_batch_failure_counterexample:
  "batchThrows (take 1000 (acceptedInvoices (extractYearFromFilename (res_name undatedResource))
      (replicate 1001 sampleRecord))) \<and>
   fst (importCSVFile (sampleFile 1001) undatedResource emptyDatabase) = Uncaught SqliteConstraint \<and>
   dataset_metadata (store (snd (importCSVFile (sampleFile 1001) undatedResource emptyDatabase))) = [] \<and>
   fst (importCSVFile (mixedFile (ParseError ''boom'')) sampleResource emptyDatabase)
     = Rejected ''boom'' \<and>
   errorCount (snd (importCSVFile (mixedFile (ParseError ''boom'')) sampleResource emptyDatabase))
     = 1 \<and>
   map length (flushed (snd (importCSVFile (mixedFile (ParseError ''boom'')) sampleResource
     emptyDatabase))) = [1000] \<and>
   dataset_metadata (store (snd (importCSVFile (mixedFile (ParseError ''boom'')) sampleResource
     emptyDatabase))) = []"
proof -
  let ?iv = "toInvoice None sampleRecord"
  have y: "extractYearFromFilename (res_name undatedResource) = None"
    by (rule sample_undated_year)
  have p: "parsed (sampleFile 1001)
      (detectDelimiter (head_bytes (sampleFile 1001)) (toLowerCase (res_format undatedResource)))
      = (replicate 1001 sampleRecord, End)"
    by (rule sample_parsed)
  have st: "foldl (onData None) (newImporter emptyDatabase) (replicate 1001 sampleRecord)
         = \<lparr>records = replicate (1001 - 1000) ?iv, recordCount = 1001, errorCount = 1,
            flushed = [replicate 1000 ?iv], store = emptyDatabase\<rparr>"
    by (rule undated_import_state) simp_all
  have thr: "batchThrows (records (foldl (onData None) (newImporter emptyDatabase)
      (replicate 1001 sampleRecord)))"
    by (simp only: st) (simp add: batchThrows_def undated_invoice_violates)
  have imp: "importCSVFile (sampleFile 1001) undatedResource emptyDatabase
      = onEnd undatedResource (foldl (onData None) (newImporter emptyDatabase)
          (replicate 1001 sampleRecord))"
    using importCSVFile_end [OF p, of emptyDatabase] by (simp only: y)
  have mid: "batchThrows (take 1000 (acceptedInvoices None (replicate 1001 sampleRecord)))"
    by (simp add: sample_accepted undated_batch_throws)
  have out: "fst (importCSVFile (sampleFile 1001) undatedResource emptyDatabase)
      = Uncaught SqliteConstraint"
    using onEnd_uncaught [OF thr, of undatedResource] by (simp only: imp)
  have db: "store (snd (importCSVFile (sampleFile 1001) undatedResource emptyDatabase))
      = emptyDatabase"
    using onEnd_uncaught [OF thr, of undatedResource] by (simp only: imp st) simp
  have pp: "parsed (mixedFile (ParseError ''boom''))
      (detectDelimiter (head_bytes (mixedFile (ParseError ''boom'')))
         (toLowerCase (res_format sampleResource)))
      = (badAmountRecord # replicate 1000 sampleRecord, ParseError ''boom'')"
    by (rule mixed_parsed)
  have broken: "importCSVFile (mixedFile (ParseError ''boom'')) sampleResource emptyDatabase
      = (Rejected ''boom'',
         \<lparr>records = [toInvoice (Some 2024) sampleRecord], recordCount = 1001, errorCount = 1,
          flushed = [toInvoice (Some 2024) badAmountRecord
                     # replicate 999 (toInvoice (Some 2024) sampleRecord)],
          store = emptyDatabase\<rparr>)"
    by (simp only: importCSVFile_error [OF pp] sample_year mixed_state)
  have first: "batchThrows (take 1000 (acceptedInvoices
      (extractYearFromFilename (res_name undatedResource)) (replicate 1001 sampleRecord))) \<and>
    fst (importCSVFile (sampleFile 1001) undatedResource emptyDatabase) = Uncaught SqliteConstraint \<and>
    dataset_metadata (store (snd (importCSVFile (sampleFile 1001) undatedResource emptyDatabase)))
      = []"
    using mid out db by (simp add: y emptyDatabase_def)
  have second: "fst (importCSVFile (mixedFile (ParseError ''boom'')) sampleResource emptyDatabase)
      = Rejected ''boom'' \<and>
    errorCount (snd (importCSVFile (mixedFile (ParseError ''boom'')) sampleResource emptyDatabase))
      = 1 \<and>
    map length (flushed (snd (importCSVFile (mixedFile (ParseError ''boom'')) sampleResource
      emptyDatabase))) = [1000] \<and>
    dataset_metadata (store (snd (importCSVFile (mixedFile (ParseError ''boom'')) sampleResource
      emptyDatabase))) = []"
    by (simp only: broken) (simp add: emptyDatabase_def)
  show ?thesis using first second by blast
qed


section \<open>Properties of the orchestration\<close>

subsection \<open>The years of the stored rows\<close>

lemma toInvoice_year: "data_year (toInvoice year rec) = year"
  by (simp add: toInvoice_def)

lemma accepted_year: "iv \<in> set (acceptedInvoices year recs) \<Longrightarrow> data_year iv = year"
  by (auto simp: acceptedInvoices_def toInvoice_year)

lemma batching_sets:
  "set (concat (fst (batching buf xs))) \<union> set (snd (batching buf xs)) = set buf \<union> set xs"
proof -
  have "set (concat (fst (batching buf xs)) @ snd (batching buf xs)) = set (buf @ xs)"
    by (simp only: batching_concat)
  then show ?thesis by simp
qed

lemma upserts_subset: "set (foldl upsert rows ivs) \<subseteq> set rows \<union> set ivs"
proof (induction ivs arbitrary: rows)
  case Nil
  then show ?case by simp
next
  case (Cons iv ivs)
  have "set (upsert rows iv) \<subseteq> set rows \<union> {iv}" by (auto simp: upsert_def)
  then show ?case using Cons.IH [of "upsert rows iv"] by auto
qed

lemma importCSVFile_rows_of_year:
  "\<exists>ivs. (\<forall>iv \<in> set ivs. data_year iv = extractYearFromFilename (res_name r)) \<and>
     (\<forall>db. invoiceRows (store (snd (importCSVFile file r db))) = foldl upsert (invoiceRows db) ivs)"
proof -
  define year where "year = extractYearFromFilename (res_name r)"
  obtain recs ending where
    p: "parsed file (detectDelimiter (head_bytes file) (toLowerCase (res_format r))) = (recs, ending)"
    by (cases "parsed file (detectDelimiter (head_bytes file) (toLowerCase (res_format r)))")
  define bs where "bs = fst (batching [] (acceptedInvoices year recs))"
  define rest where "rest = snd (batching [] (acceptedInvoices year recs))"
  define kept where "kept = concat (filter (\<lambda>b. \<not> batchThrows b) bs)"
  have st: "store (foldl (onData year) (newImporter db) recs) = foldl commitBatch db bs"
       "records (foldl (onData year) (newImporter db) recs) = rest" for db
    by (simp_all add: foldl_onData_new bs_def rest_def)
  have all: "set (concat bs) \<union> set rest = set (acceptedInvoices year recs)"
    using batching_sets [of "[]" "acceptedInvoices year recs"] by (simp add: bs_def rest_def)
  have "set kept \<subseteq> set (concat bs)" by (auto simp: kept_def)
  then have k: "\<forall>iv \<in> set kept. data_year iv = year" using all accepted_year by blast
  have r: "\<forall>iv \<in> set rest. data_year iv = year" using all accepted_year by blast
  show ?thesis
  proof (cases ending)
    case End
    have "invoiceRows (store (snd (importCSVFile file r db)))
          = foldl upsert (invoiceRows db) (kept @ (if batchThrows rest then [] else rest))" for db
      using p End
      by (simp add: importCSVFile_end year_def [symmetric] onEnd_rows st commitBatches_rows
          kept_def)
    moreover have "\<forall>iv \<in> set (kept @ (if batchThrows rest then [] else rest)). data_year iv = year"
      using k r by auto
    ultimately show ?thesis unfolding year_def by blast
  next
    case (ParseError msg)
    have "invoiceRows (store (snd (importCSVFile file r db))) = foldl upsert (invoiceRows db) kept"
      for db
      using p ParseError
      by (simp add: importCSVFile_error year_def [symmetric] st commitBatches_rows kept_def)
    then show ?thesis using k unfolding year_def by blast
  qed
qed

lemma import_rows_years:
  assumes "\<forall>iv \<in> set (invoiceRows db). data_year iv \<in> Y"
    and "extractYearFromFilename (res_name r) \<in> Y"
  shows "\<forall>iv \<in> set (invoiceRows (store (snd (importCSVFile file r db)))). data_year iv \<in> Y"
proof -
  obtain ivs where y: "\<forall>iv \<in> set ivs. data_year iv = extractYearFromFilename (res_name r)"
    and rows: "invoiceRows (store (snd (importCSVFile file r db))) = foldl upsert (invoiceRows db) ivs"
    using importCSVFile_rows_of_year [of r "file"] by blast
  show ?thesis
    unfolding rows using upserts_subset [of "invoiceRows db" ivs] assms y by auto
qed

lemma onEnd_ledger_years:
  assumes "\<forall>row \<in> set (dataset_metadata (store st)). ledger_year (snd row) \<in> Y"
    and "extractYearFromFilename (res_name r) \<in> Y"
  shows "\<forall>row \<in> set (dataset_metadata (store (snd (onEnd r st)))). ledger_year (snd row) \<in> Y"
proof (cases "batchThrows (records st)")
  case True
  then show ?thesis using onEnd_uncaught [OF True, of r] assms by simp
next
  case False
  show ?thesis
    using onEnd_resolved [OF False, of r] assms commitBatch_ledger [of "store st" "records st"]
    by auto
qed

lemma import_ledger_years:
  assumes "\<forall>row \<in> set (dataset_metadata db). ledger_year (snd row) \<in> Y"
    and "extractYearFromFilename (res_name r) \<in> Y"
  shows "\<forall>row \<in> set (dataset_metadata (store (snd (importCSVFile file r db)))).
           ledger_year (snd row) \<in> Y"
proof -
  define year where "year = extractYearFromFilename (res_name r)"
  obtain recs ending where
    p: "parsed file (detectDelimiter (head_bytes file) (toLowerCase (res_format r))) = (recs, ending)"
    by (cases "parsed file (detectDelimiter (head_bytes file) (toLowerCase (res_format r)))")
  define st where "st = foldl (onData year) (newImporter db) recs"
  have led: "dataset_metadata (store st) = dataset_metadata db"
    by (simp add: st_def foldl_onData_new commitBatches_ledger)
  show ?thesis
  proof (cases ending)
    case End
    then have "importCSVFile file r db = onEnd r st"
      using p by (simp add: importCSVFile_end st_def year_def)
    then show ?thesis using onEnd_ledger_years [of st Y r] assms led by simp
  next
    case (ParseError msg)
    then have "importCSVFile file r db = (Rejected msg, st)"
      using p by (simp add: importCSVFile_error st_def year_def)
    then show ?thesis using assms led by simp
  qed
qed

lemma importAllFiles_years:
  assumes "\<forall>iv \<in> set (invoiceRows db). data_year iv \<in> Y"
    and "\<forall>row \<in> set (dataset_metadata db). ledger_year (snd row) \<in> Y"
    and "\<forall>d \<in> set ds. extractYearFromFilename (res_name (dl_resource d)) \<in> Y"
  shows "(\<forall>iv \<in> set (invoiceRows (snd (importAllFiles files ds db))). data_year iv \<in> Y) \<and>
         (\<forall>row \<in> set (dataset_metadata (snd (importAllFiles files ds db))). ledger_year (snd row) \<in> Y)"
  using assms
proof (induction ds arbitrary: db)
  case Nil
  then show ?case by simp
next
  case (Cons d ds)
  show ?case
  proof (cases "files (filePath d)")
    case None
    then show ?thesis using Cons.prems by simp
  next
    case (Some f)
    obtain out st where imp: "importCSVFile f (dl_resource d) db = (out, st)"
      by (cases "importCSVFile f (dl_resource d) db")
    have y: "extractYearFromFilename (res_name (dl_resource d)) \<in> Y" using Cons.prems(3) by simp
    have r1: "\<forall>iv \<in> set (invoiceRows (store st)). data_year iv \<in> Y"
      using import_rows_years [OF Cons.prems(1) y, of f] imp by simp
    have r2: "\<forall>row \<in> set (dataset_metadata (store st)). ledger_year (snd row) \<in> Y"
      using import_ledger_years [OF Cons.prems(2) y, of f] imp by simp
    have r3: "\<forall>d \<in> set ds. extractYearFromFilename (res_name (dl_resource d)) \<in> Y"
      using Cons.prems(3) by simp
    note ih = Cons.IH [OF r1 r2 r3]
    show ?thesis
    proof (cases out)
      case (Resolved n k)
      then show ?thesis using Some imp ih
        by (cases "importAllFiles files ds (store st)") (auto split: sum.splits)
    next
      case (Rejected msg)
      then show ?thesis using Some imp ih
        by (cases "importAllFiles files ds (store st)") (auto split: sum.splits)
    next
      case (Uncaught e)
      then show ?thesis using Some imp r1 r2 by simp
    qed
  qed
qed

lemma downloadEach_resources:
  "downloadEach force rs w = Inr (ds, w') \<Longrightarrow> map dl_resource ds = rs"
proof (induction rs arbitrary: w ds)
  case Nil
  then show ?case by simp
next
  case (Cons r rs)
  show ?case
  proof (cases "disk w (res_name r) \<noteq> None \<and> \<not> force")
    case True
    with Cons.prems obtain ds1 where
      1: "downloadEach force rs w = Inr (ds1, w')" and
      2: "ds = \<lparr>filePath = res_name r, dl_resource = r, skipped = True\<rparr> # ds1"
      by (auto split: sum.splits)
    show ?thesis using Cons.IH [OF 1] 2 by simp
  next
    case False
    with Cons.prems obtain d w1 ds1 where
      0: "downloadFile r w = Inr (d, w1)" and
      1: "downloadEach force rs w1 = Inr (ds1, w')" and
      2: "ds = d\<lparr>skipped := False\<rparr> # ds1"
      by (auto split: sum.splits)
    have "dl_resource d = r" using 0 by (auto simp: downloadFile_def split: sum.splits)
    then show ?thesis using Cons.IH [OF 1] 2 by simp
  qed
qed

lemma selectYears_years:
  "ys \<noteq> [] \<Longrightarrow> r \<in> set (selectYears (Some ys) rs) \<Longrightarrow>
   extractYearFromFilename (res_name r) \<in> set ys \<and> extractYearFromFilename (res_name r) \<noteq> None"
  by (auto simp: selectYears_def split: option.splits)

subsection \<open>A run in the sample world\<close>

lemma sample_selected: "filterProcurementResources [sampleResource] = [sampleResource]"
proof -
  have l: "toLowerCase (res_name sampleResource) = ''th_data_2024.csv''"
       "toLowerCase (res_format sampleResource) = ''csv''"
    by (simp_all add: sampleResource_def toLowerCase_def toLowerChar_def)
  have "isDataFile sampleResource \<and> isNotTranslation sampleResource"
    by (simp add: isDataFile_def isNotTranslation_def l startsWith_def Let_def)
  then show ?thesis by (simp add: filterProcurementResources_def arraySort_def)
qed

lemma sample_skipped:
  "downloadEach False [sampleResource] sampleWorld
   = Inr ([\<lparr>filePath = ''th_data_2024.csv'', dl_resource = sampleResource, skipped = True\<rparr>],
          sampleWorld)"
  by (simp add: sampleWorld_def sampleResource_def)

lemma sample_downloads:
  "yrs = None \<or> yrs = Some [Some 2024] \<Longrightarrow>
   downloadAllProcurementFiles yrs False sampleWorld
   = Inr ([\<lparr>filePath = ''th_data_2024.csv'', dl_resource = sampleResource, skipped = True\<rparr>],
          sampleWorld)"
proof -
  assume "yrs = None \<or> yrs = Some [Some 2024]"
  then have "selectYears yrs [sampleResource] = [sampleResource]"
    by (auto simp: selectYears_def sample_year)
  moreover have "catalog sampleWorld = Inr [sampleResource]" by (simp add: sampleWorld_def)
  ultimately show ?thesis
    unfolding downloadAllProcurementFiles_def
    by (simp only: sum.case sample_selected sample_skipped)
qed

lemma sample_import_one:
  "importCSVFile (sampleFile 1) sampleResource db
   = (Resolved 1 0,
      \<lparr>records = [toInvoice (Some 2024) sampleRecord], recordCount = 1, errorCount = 0,
       flushed = [[toInvoice (Some 2024) sampleRecord]],
       store = updateMetadata sampleResource 1
         (db\<lparr>procurement_invoices :=
                filter (\<lambda>row. lasku_id (snd row) \<noteq> ''A1'') (procurement_invoices db)
                @ [(Suc (invoices_seq db), toInvoice (Some 2024) sampleRecord)],
              invoices_seq := Suc (invoices_seq db)\<rparr>)\<rparr>)"
proof -
  let ?iv = "toInvoice (Some 2024) sampleRecord"
  have p: "parsed (sampleFile 1)
      (detectDelimiter (head_bytes (sampleFile 1)) (toLowerCase (res_format sampleResource)))
      = (replicate 1 sampleRecord, End)"
    by (rule sample_parsed)
  have bat: "batching [] (replicate 1 ?iv) = ([], replicate 1 ?iv)"
    using batching_small [of "[]" "replicate 1 ?iv"] by simp
  have st: "foldl (onData (Some 2024)) (newImporter db) (replicate 1 sampleRecord)
      = \<lparr>records = [?iv], recordCount = 1, errorCount = 0, flushed = [], store = db\<rparr>"
    by (simp only: foldl_onData_new sample_accepted sample_rejected bat fst_conv snd_conv) simp
  have nv: "\<not> violatesNotNull ?iv" by (simp add: violatesNotNull_def sample_invoice)
  have id: "lasku_id ?iv = ''A1''" by (simp add: sample_invoice)
  have ins: "insertBatch [?iv] db
      = Inr (db\<lparr>procurement_invoices :=
                filter (\<lambda>row. lasku_id (snd row) \<noteq> ''A1'') (procurement_invoices db)
                @ [(Suc (invoices_seq db), ?iv)],
              invoices_seq := Suc (invoices_seq db)\<rparr>)"
    using nv by (simp add: insertBatch_def insertRun_def id)
  show ?thesis
    by (simp only: importCSVFile_end [OF p] sample_year st) (simp add: onEnd_def ins)
qed

lemma sample_import_all:
  "importAllFiles (disk sampleWorld)
     [\<lparr>filePath = ''th_data_2024.csv'', dl_resource = sampleResource, skipped = b\<rparr>] db
   = (Inr [ImportSuccess ''th_data_2024.csv'' 1 0],
      updateMetadata sampleResource 1
         (db\<lparr>procurement_invoices :=
                filter (\<lambda>row. lasku_id (snd row) \<noteq> ''A1'') (procurement_invoices db)
                @ [(Suc (invoices_seq db), toInvoice (Some 2024) sampleRecord)],
              invoices_seq := Suc (invoices_seq db)\<rparr>))"
proof -
  have f: "disk sampleWorld ''th_data_2024.csv'' = Some (sampleFile 1)"
    by (simp add: sampleWorld_def)
  have n: "res_name sampleResource = ''th_data_2024.csv''" by (simp add: sampleResource_def)
  show ?thesis
    by (simp only: importAllFiles.simps download.simps f option.case sample_import_one
        prod.case import_outcome.case sum.case importer.simps n)
qed

lemma sample_run:
  assumes "years opts = None \<or> years opts = Some [Some 2024]" "\<not> forceRedownload opts"
  shows "updateProcurementData opts sampleWorld db
   = (Completed [ImportSuccess ''th_data_2024.csv'' 1 0],
      updateMetadata sampleResource 1
        ((if clearExisting opts then clearInvoiceData db else db)
           \<lparr>procurement_invoices :=
              filter (\<lambda>row. lasku_id (snd row) \<noteq> ''A1'')
                (procurement_invoices (if clearExisting opts then clearInvoiceData db else db))
              @ [(Suc (invoices_seq db), toInvoice (Some 2024) sampleRecord)],
            invoices_seq := Suc (invoices_seq db)\<rparr>))"
proof -
  have d: "downloadAllProcurementFiles (years opts) (forceRedownload opts) sampleWorld
      = Inr ([\<lparr>filePath = ''th_data_2024.csv'', dl_resource = sampleResource, skipped = True\<rparr>],
             sampleWorld)"
    using sample_downloads [OF assms(1)] assms(2) by simp
  have s: "invoices_seq (clearInvoiceData db) = invoices_seq db"
    by (simp add: clearInvoiceData_def)
  show ?thesis
    unfolding updateProcurementData_def Let_def initializeDatabase_def
    by (simp only: d sum.case prod.case sample_import_all list.simps if_False s split: if_split)
      simp
qed

subsection \<open>Clearing before a run\<close>

lemma clear_ignores_rows:
  "clearInvoiceData (db\<lparr>procurement_invoices := rows, dataset_metadata := ledger\<rparr>)
   = clearInvoiceData db"
  by (simp add: clearInvoiceData_def)

lemma run_years:
  assumes "clearExisting opts" "years opts = Some ys" "ys \<noteq> []"
  shows "(\<forall>row \<in> set (procurement_invoices (snd (updateProcurementData opts w db))).
            data_year (snd row) \<in> set ys \<and> data_year (snd row) \<noteq> None) \<and>
         (\<forall>row \<in> set (dataset_metadata (snd (updateProcurementData opts w db))).
            ledger_year (snd row) \<in> set ys \<and> ledger_year (snd row) \<noteq> None)"
proof -
  define Y where "Y = set ys - {None}"
  define db1 where "db1 = clearInvoiceData db"
  have e1: "\<forall>iv \<in> set (invoiceRows db1). data_year iv \<in> Y"
    by (simp add: db1_def clearInvoiceData_def invoiceRows_def)
  have e2: "\<forall>row \<in> set (dataset_metadata db1). ledger_year (snd row) \<in> Y"
    by (simp add: db1_def clearInvoiceData_def)
  have goal: "(\<forall>iv \<in> set (invoiceRows (snd (updateProcurementData opts w db))). data_year iv \<in> Y) \<and>
      (\<forall>row \<in> set (dataset_metadata (snd (updateProcurementData opts w db))).
          ledger_year (snd row) \<in> Y)"
  proof (cases "downloadAllProcurementFiles (years opts) (forceRedownload opts) w")
    case (Inl e)
    then have "snd (updateProcurementData opts w db) = db1"
      using assms(1) by (simp add: updateProcurementData_def initializeDatabase_def db1_def)
    then show ?thesis using e1 e2 by simp
  next
    case (Inr res)
    obtain ds w' where res: "res = (ds, w')" by (cases res)
    show ?thesis
    proof (cases "ds = []")
      case True
      then have "snd (updateProcurementData opts w db) = db1"
        using assms(1) Inr res
        by (simp add: updateProcurementData_def initializeDatabase_def db1_def)
      then show ?thesis using e1 e2 by simp
    next
      case False
      obtain rs where cat: "catalog w = Inr rs"
        and de: "downloadEach (forceRedownload opts)
                   (selectYears (Some ys) (filterProcurementResources rs)) w = Inr (ds, w')"
        using Inr res assms(2)
        by (cases "catalog w") (simp_all add: downloadAllProcurementFiles_def)
      have m: "map dl_resource ds = selectYears (Some ys) (filterProcurementResources rs)"
        using de by (rule downloadEach_resources)
      have e3: "\<forall>d \<in> set ds. extractYearFromFilename (res_name (dl_resource d)) \<in> Y"
      proof
        fix d assume "d \<in> set ds"
        then have "dl_resource d \<in> set (map dl_resource ds)" by simp
        then have "dl_resource d \<in> set (selectYears (Some ys) (filterProcurementResources rs))"
          by (simp only: m)
        then show "extractYearFromFilename (res_name (dl_resource d)) \<in> Y"
          using selectYears_years [OF assms(3)] by (auto simp: Y_def)
      qed
      have "snd (updateProcurementData opts w db) = snd (importAllFiles (disk w') ds db1)"
        using assms(1) Inr res False
        by (cases "importAllFiles (disk w') ds db1")
          (auto simp: updateProcurementData_def initializeDatabase_def db1_def Let_def
             split: sum.splits)
      then show ?thesis using importAllFiles_years [OF e1 e2 e3, of "disk w'"] by simp
    qed
  qed
  then show ?thesis by (auto simp: Y_def invoiceRows_def)
qed

text \<open>
  Claim C6. \<open>clearInvoiceData\<close> deletes every row of the invoice table and of the ledger. In
  a run with the clear flag this happens before the download: the run ends in the same state
  whatever rows the two tables held, and when the download phase fails the tables are left
  empty. With a restriction to years on top, every invoice row and every ledger row after the
  run has one of the selected years, so the rows of the other years are gone and are not
  imported again.
\<close>

theorem clear_deletes_rows_of_every_year:
  "procurement_invoices (clearInvoiceData db) = [] \<and>
   dataset_metadata (clearInvoiceData db) = [] \<and>
   (clearExisting opts \<longrightarrow>
      updateProcurementData opts w (db\<lparr>procurement_invoices := rows, dataset_metadata := ledger\<rparr>)
        = updateProcurementData opts w db) \<and>
   (clearExisting opts \<and>
    downloadAllProcurementFiles (years opts) (forceRedownload opts) w = Inl e \<longrightarrow>
      updateProcurementData opts w db = (Fatal e, clearInvoiceData db)) \<and>
   (clearExisting opts \<and> years opts = Some ys \<and> ys \<noteq> [] \<longrightarrow>
      (\<forall>row \<in> set (procurement_invoices (snd (updateProcurementData opts w db))).
          data_year (snd row) \<in> set ys \<and> data_year (snd row) \<noteq> None) \<and>
      (\<forall>row \<in> set (dataset_metadata (snd (updateProcurementData opts w db))).
          ledger_year (snd row) \<in> set ys \<and> ledger_year (snd row) \<noteq> None))"
proof (intro conjI impI)
  show "procurement_invoices (clearInvoiceData db) = []" by (simp add: clearInvoiceData_def)
  show "dataset_metadata (clearInvoiceData db) = []" by (simp add: clearInvoiceData_def)
  show "updateProcurementData opts w (db\<lparr>procurement_invoices := rows, dataset_metadata := ledger\<rparr>)
        = updateProcurementData opts w db" if "clearExisting opts"
    using that
    by (simp only: updateProcurementData_def initializeDatabase_def Let_def if_True
        clear_ignores_rows)
  show "updateProcurementData opts w db = (Fatal e, clearInvoiceData db)"
    if "clearExisting opts \<and>
        downloadAllProcurementFiles (years opts) (forceRedownload opts) w = Inl e"
    using that by (simp add: updateProcurementData_def initializeDatabase_def)
  show "\<forall>row \<in> set (procurement_invoices (snd (updateProcurementData opts w db))).
          data_year (snd row) \<in> set ys \<and> data_year (snd row) \<noteq> None"
    if "clearExisting opts \<and> years opts = Some ys \<and> ys \<noteq> []"
    using that run_years [of opts ys w db] by blast
  show "\<forall>row \<in> set (dataset_metadata (snd (updateProcurementData opts w db))).
          ledger_year (snd row) \<in> set ys \<and> ledger_year (snd row) \<noteq> None"
    if "clearExisting opts \<and> years opts = Some ys \<and> ys \<noteq> []"
    using that run_years [of opts ys w db] by blast
qed

text \<open>
  The theorem at \<open>--clear --years=2024\<close> on a database with an invoice and a ledger row of
  2023: after the run the only invoice is of 2024 and the only ledger row is that of the 2024
  resource; and when the catalog cannot be reached, both tables end up empty.
\<close>

theorem clear_deletes_rows_of_every_year_witness:
  "map (data_year \<circ> snd) (procurement_invoices oldDatabase) = [Some 2023] \<and>
   map (data_year \<circ> snd)
     (procurement_invoices (snd (updateProcurementData
        \<lparr>years = Some [Some 2024], forceRedownload = False, clearExisting = True\<rparr>
        sampleWorld oldDatabase))) = [Some 2024] \<and>
   list_all (\<lambda>row. data_year (snd row) \<in> set [Some 2024])
     (procurement_invoices (snd (updateProcurementData
        \<lparr>years = Some [Some 2024], forceRedownload = False, clearExisting = True\<rparr>
        sampleWorld oldDatabase))) \<and>
   map (resource_id \<circ> snd)
     (dataset_metadata (snd (updateProcurementData
        \<lparr>years = Some [Some 2024], forceRedownload = False, clearExisting = True\<rparr>
        sampleWorld oldDatabase))) = [''r-2024''] \<and>
   updateProcurementData
     \<lparr>years = Some [Some 2024], forceRedownload = False, clearExisting = True\<rparr>
     (sampleWorld\<lparr>catalog := Inl (CatalogError ''down'')\<rparr>) oldDatabase
     = (Fatal (CatalogError ''down''), oldDatabase\<lparr>procurement_invoices := [], dataset_metadata := []\<rparr>)"
proof -
  let ?opts = "\<lparr>years = Some [Some 2024], forceRedownload = False, clearExisting = True\<rparr>"
  let ?w = "sampleWorld\<lparr>catalog := Inl (CatalogError ''down'')\<rparr>"
  have h: "clearExisting ?opts \<and> years ?opts = Some [Some 2024] \<and> [Some (2024::int)] \<noteq> []"
    by simp
  have f: "clearExisting ?opts \<and>
      downloadAllProcurementFiles (years ?opts) (forceRedownload ?opts) ?w = Inl (CatalogError ''down'')"
    by (simp add: downloadAllProcurementFiles_def)
  have old: "map (data_year \<circ> snd) (procurement_invoices oldDatabase) = [Some 2023]"
    by (simp add: oldDatabase_def toInvoice_year)
  have run: "updateProcurementData ?opts sampleWorld oldDatabase
     = (Completed [ImportSuccess ''th_data_2024.csv'' 1 0],
        updateMetadata sampleResource 1
          ((clearInvoiceData oldDatabase)
             \<lparr>procurement_invoices :=
                filter (\<lambda>row. lasku_id (snd row) \<noteq> ''A1'')
                  (procurement_invoices (clearInvoiceData oldDatabase))
                @ [(Suc (invoices_seq oldDatabase), toInvoice (Some 2024) sampleRecord)],
              invoices_seq := Suc (invoices_seq oldDatabase)\<rparr>))"
    using sample_run [of ?opts oldDatabase] by simp
  have new: "map (data_year \<circ> snd)
      (procurement_invoices (snd (updateProcurementData ?opts sampleWorld oldDatabase)))
      = [Some 2024]"
    by (simp only: run) (simp add: updateMetadata_def clearInvoiceData_def toInvoice_year)
  have led: "map (resource_id \<circ> snd)
      (dataset_metadata (snd (updateProcurementData ?opts sampleWorld oldDatabase))) = [''r-2024'']"
    by (simp only: run) (simp add: updateMetadata_def clearInvoiceData_def sampleResource_def)
  have all: "list_all (\<lambda>row. data_year (snd row) \<in> set [Some 2024])
      (procurement_invoices (snd (updateProcurementData ?opts sampleWorld oldDatabase)))"
    using clear_deletes_rows_of_every_year [of oldDatabase ?opts sampleWorld _ _ _ "[Some 2024]"] h
    by (simp only: list_all_iff) blast
  have fatal: "updateProcurementData ?opts ?w oldDatabase
      = (Fatal (CatalogError ''down''), clearInvoiceData oldDatabase)"
    using clear_deletes_rows_of_every_year [of oldDatabase ?opts ?w _ _ "CatalogError ''down''"] f
    by blast
  show ?thesis using old new led all fatal by (simp add: clearInvoiceData_def)
qed

subsection \<open>Downloads that are skipped\<close>








end
